theory Spec2Isabelle
  imports Main "HOL-Library.Multiset"
begin

section \<open>The environment of the generator\<close>

text \<open>
  Both scripts call Python's \<open>random\<close> module, which keeps one process-wide generator.
  Its state is modelled as the infinite tape of raw draws still to come: every call that
  needs randomness reads the head of the tape, reduces it into the requested range and
  moves on by one cell. Any run of the real generator is the run on some tape.
\<close>

type_synonym rng = "nat \<Rightarrow> nat"

datatype error = ValueError string

record world =
  random_state :: rng
  console :: "string list"
  storage :: "string \<rightharpoonup> string"

definition advance :: "rng \<Rightarrow> rng" where
  "advance g = (\<lambda>i. g (Suc i))"

text \<open>The tape after \<open>k\<close> draws.\<close>

definition skip :: "nat \<Rightarrow> rng \<Rightarrow> rng" where
  "skip k g = (\<lambda>i. g (k + i))"

text \<open>
  \<open>if seed is not None: random.seed(seed)\<close>. The state that \<open>random.seed\<close> installs is
  computed inside the Python runtime; it is the parameter \<open>seed_state\<close>.
\<close>

definition reseed :: "(int \<Rightarrow> rng) \<Rightarrow> int option \<Rightarrow> rng \<Rightarrow> rng" where
  "reseed seed_state seed g = (case seed of None \<Rightarrow> g | Some s \<Rightarrow> seed_state s)"

definition randbelow :: "nat \<Rightarrow> rng \<Rightarrow> nat \<times> rng" where
  "randbelow k g = (g 0 mod k, advance g)"

text \<open>
  \<open>random.randint(a, b)\<close>: a value of the closed range, or \<open>ValueError\<close> when the range
  is empty (nothing is drawn then).
\<close>

definition randint :: "int \<Rightarrow> int \<Rightarrow> rng \<Rightarrow> (error + int) \<times> rng" where
  "randint a b g =
     (if b < a then (Inl (ValueError ''empty range in randrange''), g)
      else (case randbelow (nat (b - a + 1)) g of (r, g') \<Rightarrow> (Inr (a + int r), g')))"

text \<open>\<open>[random.randint(a, b) for _ in range(k)]\<close>\<close>

fun randint_list :: "nat \<Rightarrow> int \<Rightarrow> int \<Rightarrow> rng \<Rightarrow> (error + int list) \<times> rng" where
  "randint_list 0 a b g = (Inr [], g)"
| "randint_list (Suc k) a b g =
     (case randint a b g of
        (Inl e, g') \<Rightarrow> (Inl e, g')
      | (Inr v, g') \<Rightarrow>
          (case randint_list k a b g' of
             (Inl e, g'') \<Rightarrow> (Inl e, g'')
           | (Inr vs, g'') \<Rightarrow> (Inr (v # vs), g'')))"

text \<open>
  \<open>random.shuffle(x)\<close>: for \<open>i\<close> from \<open>len(x) - 1\<close> down to \<open>1\<close>, swap \<open>x[i]\<close> with
  \<open>x[j]\<close>, \<open>j\<close> drawn below \<open>i + 1\<close>.
\<close>

definition swap :: "nat \<Rightarrow> nat \<Rightarrow> 'a list \<Rightarrow> 'a list" where
  "swap i j xs = xs[i := xs ! j, j := xs ! i]"

fun shuffle_from :: "nat \<Rightarrow> 'a list \<Rightarrow> rng \<Rightarrow> 'a list \<times> rng" where
  "shuffle_from 0 xs g = (xs, g)"
| "shuffle_from (Suc i) xs g =
     (case randbelow (Suc i + 1) g of (j, g') \<Rightarrow> shuffle_from i (swap (Suc i) j xs) g')"

definition shuffle :: "'a list \<Rightarrow> rng \<Rightarrow> 'a list \<times> rng" where
  "shuffle xs g = shuffle_from (length xs - 1) xs g"

section \<open>Text\<close>

definition digit_char :: "nat \<Rightarrow> char" where
  "digit_char d = ''0123456789'' ! d"

fun str_nat :: "nat \<Rightarrow> string" where
  "str_nat k = (if k < 10 then [digit_char k] else str_nat (k div 10) @ [digit_char (k mod 10)])"

declare str_nat.simps [simp del]

text \<open>\<open>str(i)\<close> of a Python integer, as the f-strings and \<open>map(str, ...)\<close> produce it.\<close>

definition str :: "int \<Rightarrow> string" where
  "str i = (if i < 0 then CHR ''-'' # str_nat (nat (- i)) else str_nat (nat i))"

text \<open>\<open>sep.join(xs)\<close>\<close>

fun join :: "string \<Rightarrow> string list \<Rightarrow> string" where
  "join sep [] = []"
| "join sep [x] = x"
| "join sep (x # y # ys) = x @ sep @ join sep (y # ys)"

definition newline :: char where
  "newline = CHR 0x0A"

definition space :: char where
  "space = CHR '' ''"

text \<open>\<open>range(k)\<close> of a Python integer: empty when \<open>k\<close> is not positive.\<close>

definition range_py :: "int \<Rightarrow> int list" where
  "range_py k = map int [0..<nat k]"

text \<open>\<open>xs[:k]\<close>: a negative \<open>k\<close> counts from the end.\<close>

definition slice_to :: "int \<Rightarrow> 'a list \<Rightarrow> 'a list" where
  "slice_to k xs = (if k < 0 then take (length xs - nat (- k)) xs else take (nat k) xs)"

text \<open>
  The lines both scripts build: the header, the benefits, the weights, and one line per
  pair, joined by newlines.
\<close>

definition pair_line :: "int \<times> int \<Rightarrow> string" where
  "pair_line p = str (fst p) @ '' '' @ str (snd p)"

definition out_lines ::
  "int \<Rightarrow> int \<Rightarrow> int \<Rightarrow> int \<Rightarrow> int list \<Rightarrow> int list \<Rightarrow> (int \<times> int) list \<Rightarrow> string list" where
  "out_lines m n ne b benefits deps pairs =
     [str m @ '' '' @ str n @ '' '' @ str ne @ '' '' @ str b,
      join '' '' (map str benefits),
      join '' '' (map str deps)] @ map pair_line pairs"

section \<open>instance_generator.py\<close>

text \<open>
  \<open>pairs_set\<close> is kept as the list of its elements in order of first insertion;
  \<open>len\<close> is the length of that list.
\<close>

definition set_add :: "'a \<Rightarrow> 'a list \<Rightarrow> 'a list" where
  "set_add x ps = (if x \<in> set ps then ps else ps @ [x])"

text \<open>Step 1: one dependency for each package index.\<close>

fun cover :: "int list \<Rightarrow> int \<Rightarrow> (int \<times> int) list \<Rightarrow> rng \<Rightarrow> (error + (int \<times> int) list) \<times> rng" where
  "cover [] n ps g = (Inr ps, g)"
| "cover (i # is) n ps g =
     (case randint 0 (n - 1) g of
        (Inl e, g') \<Rightarrow> (Inl e, g')
      | (Inr j, g') \<Rightarrow> cover is n (set_add (i, j) ps) g')"

text \<open>
  Step 2: the \<open>while len(pairs_set) < ne\<close> loop. Nothing bounds the number of rounds, so
  a run that never leaves the loop is the value \<open>None\<close>.
\<close>

partial_function (option) fill ::
  "int \<Rightarrow> int \<Rightarrow> int \<Rightarrow> (int \<times> int) list \<Rightarrow> rng \<Rightarrow> ((error + (int \<times> int) list) \<times> rng) option" where
  "fill m n ne ps g =
     (if int (length ps) < ne then
        (case randint 0 (m - 1) g of
           (Inl e, g1) \<Rightarrow> Some (Inl e, g1)
         | (Inr p, g1) \<Rightarrow>
             (case randint 0 (n - 1) g1 of
                (Inl e, g2) \<Rightarrow> Some (Inl e, g2)
              | (Inr d, g2) \<Rightarrow> fill m n ne (set_add (p, d) ps) g2))
      else Some (Inr ps, g))"

declare fill.simps [code]

definition too_small_msg :: "int \<Rightarrow> int \<Rightarrow> string" where
  "too_small_msg ne m =
     ''[!] ne='' @ str ne @ '' is too small. Adjusted to '' @ str m @
     '' to ensure each package has a dependency.''"

definition too_large_msg :: "int \<Rightarrow> int \<Rightarrow> string" where
  "too_large_msg ne mn =
     ''[!] ne='' @ str ne @ '' is too large. Adjusted to maximum possible '' @ str mn @ ''.''"

text \<open>
  \<open>gen_instance\<close> of instance_generator.py. Two things it uses live in the Python
  runtime and are parameters here: \<open>seed_state\<close>, the generator state that
  \<open>random.seed(seed)\<close> installs, and \<open>set_order\<close>, the order in which \<open>list(pairs_set)\<close>
  enumerates the hash set. The result is the returned text or the exception raised,
  together with the world afterwards.
\<close>

definition gen_instance ::
  "(int \<Rightarrow> rng) \<Rightarrow> ((int \<times> int) list \<Rightarrow> (int \<times> int) list) \<Rightarrow>
   int \<Rightarrow> int \<Rightarrow> int \<Rightarrow> int \<Rightarrow> int \<Rightarrow> int \<Rightarrow> int option \<Rightarrow> world \<Rightarrow>
   ((error + string) \<times> world) option" where
  "gen_instance seed_state set_order m n ne b benefit_max dep_max seed w =
     (let g0 = reseed seed_state seed (random_state w);
          (ne', printed) =
            (if ne < m then (m, [too_small_msg ne m])
             else if ne > m * n then (m * n, [too_large_msg ne (m * n)])
             else (ne, []));
          w' = w\<lparr>console := console w @ printed\<rparr>
      in case randint_list (nat m) 10 benefit_max g0 of
           (Inl e, g1) \<Rightarrow> Some (Inl e, w'\<lparr>random_state := g1\<rparr>)
         | (Inr benefits, g1) \<Rightarrow>
        (case randint_list (nat n) 5 dep_max g1 of
           (Inl e, g2) \<Rightarrow> Some (Inl e, w'\<lparr>random_state := g2\<rparr>)
         | (Inr deps, g2) \<Rightarrow>
        (case cover (range_py m) n [] g2 of
           (Inl e, g3) \<Rightarrow> Some (Inl e, w'\<lparr>random_state := g3\<rparr>)
         | (Inr ps, g3) \<Rightarrow>
        (case fill m n ne' ps g3 of
           None \<Rightarrow> None
         | Some (Inl e, g4) \<Rightarrow> Some (Inl e, w'\<lparr>random_state := g4\<rparr>)
         | Some (Inr pairs_set, g4) \<Rightarrow>
             (case shuffle (set_order pairs_set) g4 of
                (pairs, g5) \<Rightarrow>
                  Some (Inr (join [newline] (out_lines m n ne' b benefits deps pairs)),
                        w'\<lparr>random_state := g5\<rparr>))))))"

section \<open>gerador_de_instancias.py\<close>

text \<open>\<open>[(i, j) for i in range(m) for j in range(n)]\<close>\<close>

definition all_pairs :: "int \<Rightarrow> int \<Rightarrow> (int \<times> int) list" where
  "all_pairs m n = concat (map (\<lambda>i. map (\<lambda>j. (i, j)) (range_py n)) (range_py m))"

definition gen_instance_gerador ::
  "(int \<Rightarrow> rng) \<Rightarrow> int \<Rightarrow> int \<Rightarrow> int \<Rightarrow> int \<Rightarrow> int \<Rightarrow> int \<Rightarrow> int option \<Rightarrow> world \<Rightarrow>
   (error + string) \<times> world" where
  "gen_instance_gerador seed_state m n ne b benefit_max dep_max seed w =
     (let g0 = reseed seed_state seed (random_state w)
      in case randint_list (nat m) 10 benefit_max g0 of
           (Inl e, g1) \<Rightarrow> (Inl e, w\<lparr>random_state := g1\<rparr>)
         | (Inr benefits, g1) \<Rightarrow>
        (case randint_list (nat n) 5 dep_max g1 of
           (Inl e, g2) \<Rightarrow> (Inl e, w\<lparr>random_state := g2\<rparr>)
         | (Inr deps, g2) \<Rightarrow>
        (case shuffle (all_pairs m n) g2 of
           (shuffled, g3) \<Rightarrow>
             if ne > int (length shuffled)
             then (Inl (ValueError ''ne cannot exceed m*n''), w\<lparr>random_state := g3\<rparr>)
             else (Inr (join [newline] (out_lines m n ne b benefits deps (slice_to ne shuffled))),
                   w\<lparr>random_state := g3\<rparr>))))"

section \<open>Reading the text back\<close>

text \<open>\<open>s.split(c)\<close> for a one-character separator, as a reader of the format applies it.\<close>

fun split :: "char \<Rightarrow> string \<Rightarrow> string list" where
  "split c [] = [[]]"
| "split c (x # xs) =
     (if x = c then [] # split c xs
      else (case split c xs of [] \<Rightarrow> [[x]] | w # ws \<Rightarrow> (x # w) # ws))"

section \<open>Notions used to state the properties\<close>

text \<open>The pairs a valid instance may contain.\<close>

definition pair_range :: "int \<Rightarrow> int \<Rightarrow> (int \<times> int) set" where
  "pair_range m n = {0..<m} \<times> {0..<n}"

text \<open>The pair that one round of the \<open>while\<close> loop draws from a tape.\<close>

definition draw_pair :: "int \<Rightarrow> int \<Rightarrow> rng \<Rightarrow> int \<times> int" where
  "draw_pair m n g = (int (g 0 mod nat m), int (g (Suc 0) mod nat n))"

text \<open>
  A tape is fair for the loop when every pair of the range keeps turning up among the
  rounds' draws. A uniform random source is fair with probability one; a tape that is
  not (a constant one, say) can keep the loop running forever.
\<close>

definition fair_pairs :: "int \<Rightarrow> int \<Rightarrow> rng \<Rightarrow> bool" where
  "fair_pairs m n g = (\<forall>j. \<forall>q\<in>pair_range m n. \<exists>k\<ge>j. draw_pair m n (skip (2 * k) g) = q)"

text \<open>What is assumed of \<open>list(pairs_set)\<close>: every element of the set, once.\<close>

definition lists_each_once :: "('a list \<Rightarrow> 'a list) \<Rightarrow> bool" where
  "lists_each_once f = (\<forall>ps. mset (f ps) = mset ps)"

text \<open>The values that \<open>k\<close> calls of \<open>randint(a, b)\<close> return on a tape, in call order.\<close>

definition sampled :: "nat \<Rightarrow> int \<Rightarrow> int \<Rightarrow> rng \<Rightarrow> int list" where
  "sampled k a b g = map (\<lambda>i. a + int (g i mod nat (b - a + 1))) [0..<k]"

text \<open>The pairs that step 1 of instance_generator.py inserts, reading the tape \<open>g\<close>.\<close>

definition cover_set :: "int \<Rightarrow> int \<Rightarrow> rng \<Rightarrow> (int \<times> int) set" where
  "cover_set m n g = (\<lambda>k. (int k, int (g k mod nat n))) ` {..<nat m}"

text \<open>The edge count that instance_generator.py works with, and what it prints on the way.\<close>

definition clamp_ne :: "int \<Rightarrow> int \<Rightarrow> int \<Rightarrow> int" where
  "clamp_ne m n ne = (if ne < m then m else if ne > m * n then m * n else ne)"

definition warnings :: "int \<Rightarrow> int \<Rightarrow> int \<Rightarrow> string list" where
  "warnings m n ne =
     (if ne < m then [too_small_msg ne m]
      else if ne > m * n then [too_large_msg ne (m * n)]
      else [])"

text \<open>The characters of a decimal numeral.\<close>

definition digit_chars :: "char set" where
  "digit_chars = set ''0123456789''"

text \<open>
  What both scripts draw first: \<open>m\<close> benefits from the tape the call starts on, then
  \<open>n\<close> weights.
\<close>

definition benefits_drawn :: "(int \<Rightarrow> rng) \<Rightarrow> int \<Rightarrow> int \<Rightarrow> int option \<Rightarrow> world \<Rightarrow> int list" where
  "benefits_drawn seed_state m benefit_max seed w =
     sampled (nat m) 10 benefit_max (reseed seed_state seed (random_state w))"

definition weights_drawn ::
  "(int \<Rightarrow> rng) \<Rightarrow> int \<Rightarrow> int \<Rightarrow> int \<Rightarrow> int option \<Rightarrow> world \<Rightarrow> int list" where
  "weights_drawn seed_state m n dep_max seed w =
     sampled (nat n) 5 dep_max (skip (nat m) (reseed seed_state seed (random_state w)))"

text \<open>
  The tapes on which step 1 and the \<open>while\<close> loop of instance_generator.py start: after
  the benefits and the weights, and after the \<open>m\<close> draws of step 1.
\<close>

definition cover_tape :: "(int \<Rightarrow> rng) \<Rightarrow> int \<Rightarrow> int \<Rightarrow> int option \<Rightarrow> world \<Rightarrow> rng" where
  "cover_tape seed_state m n seed w =
     skip (nat n) (skip (nat m) (reseed seed_state seed (random_state w)))"

definition loop_tape :: "(int \<Rightarrow> rng) \<Rightarrow> int \<Rightarrow> int \<Rightarrow> int option \<Rightarrow> world \<Rightarrow> rng" where
  "loop_tape seed_state m n seed w = skip (nat m) (cover_tape seed_state m n seed w)"


text \<open>The values a reader finds on the second and on the third line of the text.\<close>

definition values_lines :: "string \<Rightarrow> string list \<times> string list" where
  "values_lines out =
     (split space (split newline out ! 1), split space (split newline out ! 2))"

text \<open>The third field of the header line, and the number of lines after the third.\<close>

definition header_ne :: "string \<Rightarrow> string" where
  "header_ne out = split space (split newline out ! 0) ! 2"

definition pair_line_count :: "string \<Rightarrow> nat" where
  "pair_line_count out = length (drop 3 (split newline out))"

text \<open>Sample inputs.\<close>

definition tape_example :: rng where
  "tape_example i = (if even i then i div 4 else i div 2)"

definition seed_state_example :: "int \<Rightarrow> rng" where
  "seed_state_example s = skip (nat \<bar>s\<bar>) tape_example"

definition world_example :: world where
  "world_example = \<lparr>random_state = tape_example, console = [], storage = Map.empty\<rparr>"

section \<open>Facts about the random source\<close>

lemma skip_0 [simp]: "skip 0 g = g"
  by (simp add: skip_def)

lemma skip_skip [simp]: "skip a (skip b g) = skip (a + b) g"
  by (simp add: skip_def add.commute add.left_commute)

lemma advance_skip: "advance g = skip 1 g"
  by (simp add: advance_def skip_def)

lemma skip_apply: "skip k g i = g (k + i)"
  by (simp add: skip_def)

lemma randint_ok:
  "a \<le> b \<Longrightarrow> randint a b g = (Inr (a + int (g 0 mod nat (b - a + 1))), skip 1 g)"
  by (simp add: randint_def randbelow_def advance_skip)

lemma randint_empty:
  "b < a \<Longrightarrow> randint a b g = (Inl (ValueError ''empty range in randrange''), g)"
  by (simp add: randint_def)

lemma randint_list_ok:
  "a \<le> b \<Longrightarrow>
   randint_list k a b g = (Inr (map (\<lambda>i. a + int (g i mod nat (b - a + 1))) [0..<k]), skip k g)"
proof (induction k arbitrary: g)
  case 0
  show ?case by simp
next
  case (Suc k)
  have "randint_list (Suc k) a b g =
        (Inr ((a + int (g 0 mod nat (b - a + 1))) #
              map (\<lambda>i. a + int (skip 1 g i mod nat (b - a + 1))) [0..<k]), skip k (skip 1 g))"
    using Suc.prems by (simp add: randint_ok Suc.IH)
  also have "\<dots> = (Inr (map (\<lambda>i. a + int (g i mod nat (b - a + 1))) [0..<Suc k]), skip (Suc k) g)"
    by (simp only: map_upt_Suc skip_apply skip_skip) simp
  finally show ?case .
qed

lemma randint_list_empty:
  "b < a \<Longrightarrow> randint_list (Suc k) a b g = (Inl (ValueError ''empty range in randrange''), g)"
  by (simp add: randint_empty)

lemma mset_swap_list:
  "i < length xs \<Longrightarrow> j < length xs \<Longrightarrow> mset (swap i j xs) = mset xs"
  unfolding swap_def by (rule mset_swap)

lemma length_swap [simp]: "length (swap i j xs) = length xs"
  by (simp add: swap_def)

lemma shuffle_from_perm:
  "i < length xs \<or> i = 0 \<Longrightarrow>
   mset (fst (shuffle_from i xs g)) = mset xs \<and> snd (shuffle_from i xs g) = skip i g"
proof (induction i arbitrary: xs g)
  case 0
  show ?case by simp
next
  case (Suc i)
  let ?j = "g 0 mod (Suc i + 1)"
  have "?j < Suc i + 1" by (rule mod_less_divisor) simp
  moreover have "Suc i + 1 \<le> length xs" using Suc.prems by simp
  ultimately have j: "?j < length xs" by (rule less_le_trans)
  have "mset (swap (Suc i) ?j xs) = mset xs"
    using Suc.prems j by (simp add: mset_swap_list)
  moreover have "i < length (swap (Suc i) ?j xs) \<or> i = 0"
    using Suc.prems by simp
  ultimately show ?case
    using Suc.IH [of "swap (Suc i) ?j xs" "skip 1 g"]
    by (simp add: randbelow_def advance_skip)
qed

lemma shuffle_perm: "mset (fst (shuffle xs g)) = mset xs"
  unfolding shuffle_def by (cases xs) (simp_all add: shuffle_from_perm)

lemma shuffle_tape: "snd (shuffle xs g) = skip (length xs - 1) g"
  unfolding shuffle_def by (cases xs) (simp_all add: shuffle_from_perm)

section \<open>Facts about the pair set\<close>

lemma set_add_set [simp]: "set (set_add x ps) = insert x (set ps)"
  by (auto simp: set_add_def)

lemma set_add_distinct [simp]: "distinct (set_add x ps) = distinct ps"
  by (auto simp: set_add_def)

lemma set_add_length:
  "length (set_add x ps) = (if x \<in> set ps then length ps else Suc (length ps))"
  by (simp add: set_add_def)

lemma cover_ok:
  assumes n: "1 \<le> n"
  shows "\<exists>ps'. cover is n ps g = (Inr ps', skip (length is) g) \<and>
           set ps' = set ps \<union> (\<lambda>k. (is ! k, int (g k mod nat n))) ` {..<length is} \<and>
           distinct ps' = distinct ps \<and>
           (distinct is \<and> set is \<inter> fst ` set ps = {} \<longrightarrow> length ps' = length ps + length is)"
proof (induction "is" arbitrary: ps g)
  case Nil
  show ?case by simp
next
  case (Cons i "is")
  let ?j = "int (g 0 mod nat n)"
  have r: "randint 0 (n - 1) g = (Inr ?j, skip 1 g)"
    using n by (simp add: randint_ok)
  obtain ps' where c: "cover is n (set_add (i, ?j) ps) (skip 1 g) = (Inr ps', skip (length is) (skip 1 g))"
    and s: "set ps' = set (set_add (i, ?j) ps) \<union> (\<lambda>k. (is ! k, int (skip 1 g k mod nat n))) ` {..<length is}"
    and d: "distinct ps' = distinct (set_add (i, ?j) ps)"
    and l: "distinct is \<and> set is \<inter> fst ` set (set_add (i, ?j) ps) = {} \<longrightarrow>
            length ps' = length (set_add (i, ?j) ps) + length is"
    using Cons.IH [of "set_add (i, ?j) ps" "skip 1 g"] by (elim exE conjE) (rule that, assumption+)
  have 1: "cover (i # is) n ps g = (Inr ps', skip (length (i # is)) g)"
    using r c by simp
  have 2: "set ps' = set ps \<union> (\<lambda>k. ((i # is) ! k, int (g k mod nat n))) ` {..<length (i # is)}"
    using s by (simp add: lessThan_Suc_eq_insert_0 image_image skip_apply)
  have 3: "distinct ps' = distinct ps" using d by simp
  have 4: "distinct (i # is) \<and> set (i # is) \<inter> fst ` set ps = {} \<longrightarrow>
           length ps' = length ps + length (i # is)"
  proof
    assume a: "distinct (i # is) \<and> set (i # is) \<inter> fst ` set ps = {}"
    then have "(i, ?j) \<notin> set ps" by force
    then have "length (set_add (i, ?j) ps) = Suc (length ps)" by (simp add: set_add_length)
    moreover have "distinct is \<and> set is \<inter> fst ` set (set_add (i, ?j) ps) = {}"
      using a by auto
    ultimately show "length ps' = length ps + length (i # is)" using l by simp
  qed
  show ?case by (intro exI [of _ ps'] conjI 1 2 3 4)
qed

lemma cover_empty_range:
  "n < 1 \<Longrightarrow> cover (i # is) n ps g = (Inl (ValueError ''empty range in randrange''), g)"
  by (simp add: randint_empty)

lemma range_py_length [simp]: "length (range_py k) = nat k"
  by (simp add: range_py_def)

lemma range_py_nth: "i < nat k \<Longrightarrow> range_py k ! i = int i"
  by (simp add: range_py_def)

lemma range_py_distinct [simp]: "distinct (range_py k)"
  by (simp add: range_py_def distinct_map)

lemma range_py_set: "set (range_py k) = {0..<k}"
proof (rule set_eqI)
  fix x :: int
  show "x \<in> set (range_py k) \<longleftrightarrow> x \<in> {0..<k}"
  proof
    assume "x \<in> set (range_py k)"
    then obtain i where "i < nat k" "x = int i" by (auto simp: range_py_def)
    then show "x \<in> {0..<k}" by simp
  next
    assume "x \<in> {0..<k}"
    then have "nat x < nat k" "x = int (nat x)" by simp_all
    then show "x \<in> set (range_py k)" unfolding range_py_def by (metis atLeast0LessThan lessThan_iff image_eqI set_map set_upt)
  qed
qed

section \<open>Facts about the loop\<close>

lemma fill_done: "\<not> int (length ps) < ne \<Longrightarrow> fill m n ne ps g = Some (Inr ps, g)"
  by (subst fill.simps) simp

lemma fill_round:
  "1 \<le> m \<Longrightarrow> 1 \<le> n \<Longrightarrow> int (length ps) < ne \<Longrightarrow>
   fill m n ne ps g = fill m n ne (set_add (draw_pair m n g) ps) (skip 2 g)"
  by (subst fill.simps) (simp add: randint_ok draw_pair_def skip_apply numeral_2_eq_2)

lemma fill_empty_range:
  "m < 1 \<Longrightarrow> int (length ps) < ne \<Longrightarrow>
   fill m n ne ps g = Some (Inl (ValueError ''empty range in randrange''), g)"
  by (subst fill.simps) (simp add: randint_empty)

lemma mod_nat_less: "1 \<le> m \<Longrightarrow> int (x mod nat m) < m"
proof -
  assume "1 \<le> m"
  then have "x mod nat m < nat m" by simp
  then show ?thesis by (simp only: zless_nat_eq_int_zless)
qed

lemma draw_pair_in_range: "1 \<le> m \<Longrightarrow> 1 \<le> n \<Longrightarrow> draw_pair m n g \<in> pair_range m n"
  by (simp add: draw_pair_def pair_range_def mod_nat_less)

lemma card_pair_range: "card (pair_range m n) = nat m * nat n"
  by (simp add: pair_range_def card_cartesian_product)

lemma finite_pair_range [simp]: "finite (pair_range m n)"
  by (simp add: pair_range_def)

lemma fill_partial_aux:
  assumes "fill m0 n0 ne0 ps0 g0 = Some r0"
  shows "1 \<le> m0 \<longrightarrow> 1 \<le> n0 \<longrightarrow> distinct ps0 \<longrightarrow> set ps0 \<subseteq> pair_range m0 n0 \<longrightarrow>
   (\<exists>ps' g'. r0 = (Inr ps', g') \<and> distinct ps' \<and> set ps0 \<subseteq> set ps' \<and>
      set ps' \<subseteq> pair_range m0 n0 \<and> int (length ps') = max (int (length ps0)) ne0)"
proof (rule fill.raw_induct [where P = "\<lambda>m n ne ps g r.
   1 \<le> m \<longrightarrow> 1 \<le> n \<longrightarrow> distinct ps \<longrightarrow> set ps \<subseteq> pair_range m n \<longrightarrow>
   (\<exists>ps' g'. r = (Inr ps', g') \<and> distinct ps' \<and> set ps \<subseteq> set ps' \<and>
      set ps' \<subseteq> pair_range m n \<and> int (length ps') = max (int (length ps)) ne)", OF _ assms],
    goal_cases)
  case (1 fill' m n ne ps g r)
  note IH = "1"(1) and hyps = "1"(2)
  show ?case
  proof (intro impI)
    assume m: "1 \<le> m" and n: "1 \<le> n" and d: "distinct ps" and s: "set ps \<subseteq> pair_range m n"
    show "\<exists>ps' g'. r = (Inr ps', g') \<and> distinct ps' \<and> set ps \<subseteq> set ps' \<and>
      set ps' \<subseteq> pair_range m n \<and> int (length ps') = max (int (length ps)) ne"
    proof (cases "int (length ps) < ne")
      case False
      with hyps have "r = (Inr ps, g)" by simp
      with False d s show ?thesis by simp
    next
      case True
      let ?q = "draw_pair m n g"
      let ?ps = "set_add ?q ps"
      have f: "fill' m n ne ?ps (skip 2 g) = Some r"
        using hyps True m n
        by (simp add: randint_ok draw_pair_def skip_apply numeral_2_eq_2)
      have dd: "distinct ?ps" using d by simp
      have ss: "set ?ps \<subseteq> pair_range m n"
        using s draw_pair_in_range [OF m n, of g] by simp
      from IH [OF f, rule_format, OF m n dd ss]
      obtain ps' g' where r: "r = (Inr ps', g')" and d': "distinct ps'"
        and s': "set ?ps \<subseteq> set ps'" and r': "set ps' \<subseteq> pair_range m n"
        and l': "int (length ps') = max (int (length ?ps)) ne"
        by (elim exE conjE) (rule that, assumption+)
      have "int (length ?ps) \<le> ne" using True by (simp add: set_add_length)
      then have "int (length ps') = max (int (length ps)) ne" using l' True by simp
      moreover have "set ps \<subseteq> set ps'" using s' by auto
      ultimately show ?thesis using r d' r' by simp
    qed
  qed
qed

lemma fill_partial:
  assumes "fill m n ne ps g = Some r" "1 \<le> m" "1 \<le> n" "distinct ps" "set ps \<subseteq> pair_range m n"
  shows "\<exists>ps' g'. r = (Inr ps', g') \<and> distinct ps' \<and> set ps \<subseteq> set ps' \<and>
      set ps' \<subseteq> pair_range m n \<and> int (length ps') = max (int (length ps)) ne"
  using fill_partial_aux [OF assms(1)] assms(2-) by simp

lemma fair_pairs_skip: "fair_pairs m n g \<Longrightarrow> fair_pairs m n (skip 2 g)"
  unfolding fair_pairs_def
proof (intro allI ballI)
  fix j q
  assume a: "\<forall>j. \<forall>q\<in>pair_range m n. \<exists>k\<ge>j. draw_pair m n (skip (2 * k) g) = q"
    and q: "q \<in> pair_range m n"
  from a q obtain k where k: "Suc j \<le> k" "draw_pair m n (skip (2 * k) g) = q" by blast
  then obtain k' where k': "k = Suc k'" by (cases k) auto
  have "skip (2 * k') (skip 2 g) = skip (2 * k) g" by (simp add: k')
  with k k' show "\<exists>k\<ge>j. draw_pair m n (skip (2 * k) (skip 2 g)) = q" by auto
qed

lemma missing_pair:
  assumes "distinct ps" "set ps \<subseteq> pair_range m n" "length ps < nat m * nat n"
  shows "\<exists>q\<in>pair_range m n. q \<notin> set ps"
proof (rule ccontr)
  assume "\<not> (\<exists>q\<in>pair_range m n. q \<notin> set ps)"
  then have "pair_range m n \<subseteq> set ps" by auto
  then have "card (pair_range m n) \<le> card (set ps)" by (intro card_mono) simp_all
  then show False using assms by (simp add: card_pair_range distinct_card)
qed

lemma fill_terminates:
  assumes m: "1 \<le> m" and n: "1 \<le> n" and ne: "ne \<le> m * n"
  shows "fair_pairs m n g \<Longrightarrow> distinct ps \<Longrightarrow> set ps \<subseteq> pair_range m n \<Longrightarrow>
         \<exists>r. fill m n ne ps g = Some r"
proof (induction "nat m * nat n - length ps" arbitrary: ps g rule: less_induct)
  case less
  show ?case
  proof (cases "int (length ps) < ne")
    case False
    then show ?thesis by (simp add: fill_done)
  next
    case True
    have "int (length ps) < int (nat m * nat n)"
      using True ne m n by (simp add: nat_mult_distrib)
    then have lt: "length ps < nat m * nat n" by (simp only: of_nat_less_iff)
    have new: "\<exists>r. fill m n ne ps g' = Some r"
      if f: "fair_pairs m n g'" and q: "draw_pair m n g' \<notin> set ps" for g'
    proof -
      let ?ps = "set_add (draw_pair m n g') ps"
      have "length ?ps = Suc (length ps)" using q by (simp add: set_add_length)
      then have "nat m * nat n - length ?ps < nat m * nat n - length ps" using lt by simp
      moreover have "fair_pairs m n (skip 2 g')" using f by (rule fair_pairs_skip)
      moreover have "distinct ?ps" using less.prems(2) by simp
      moreover have "set ?ps \<subseteq> pair_range m n"
        using less.prems(3) draw_pair_in_range [OF m n, of g'] by simp
      ultimately have "\<exists>r. fill m n ne ?ps (skip 2 g') = Some r" by (rule less.hyps)
      then show ?thesis using fill_round [OF m n True, of g'] by simp
    qed
    obtain q where q: "q \<in> pair_range m n" "q \<notin> set ps"
      using missing_pair [OF less.prems(2,3) lt] by (elim bexE) (rule that)
    from less.prems(1)
    have "\<forall>j. \<forall>q\<in>pair_range m n. \<exists>k\<ge>j. draw_pair m n (skip (2 * k) g) = q"
      by (simp only: fair_pairs_def)
    then have "\<forall>q\<in>pair_range m n. \<exists>k\<ge>0. draw_pair m n (skip (2 * k) g) = q"
      by (rule spec)
    then have "\<exists>k\<ge>0. draw_pair m n (skip (2 * k) g) = q"
      using q(1) by (rule bspec)
    then obtain k where "draw_pair m n (skip (2 * k) g) = q"
      by (elim exE conjE) (rule that)
    with q(2) have k: "draw_pair m n (skip (2 * k) g) \<notin> set ps" by simp
    have "fair_pairs m n g' \<Longrightarrow> draw_pair m n (skip (2 * k) g') \<notin> set ps \<Longrightarrow>
          \<exists>r. fill m n ne ps g' = Some r" for g'
    proof (induction k arbitrary: g')
      case 0
      then show ?case using new [of g'] by simp
    next
      case (Suc k)
      show ?case
      proof (cases "draw_pair m n g' \<in> set ps")
        case False
        with Suc.prems(1) show ?thesis by (rule new)
      next
        case True
        have "skip (2 * k) (skip 2 g') = skip (2 * Suc k) g'" by simp
        with Suc.prems(2) have "draw_pair m n (skip (2 * k) (skip 2 g')) \<notin> set ps" by simp
        with fair_pairs_skip [OF Suc.prems(1)]
        have "\<exists>r. fill m n ne ps (skip 2 g') = Some r" by (rule Suc.IH)
        moreover have "set_add (draw_pair m n g') ps = ps" using True by (simp add: set_add_def)
        ultimately show ?thesis
          using fill_round [OF m n \<open>int (length ps) < ne\<close>, of g'] by simp
      qed
    qed
    from this [OF less.prems(1) k] show ?thesis .
  qed
qed

section \<open>Facts about the text\<close>

lemma digit_char_cases: "d < 10 \<Longrightarrow> digit_char d \<in> digit_chars"
  unfolding digit_char_def digit_chars_def by (rule nth_mem) simp

lemma str_nat_chars: "set (str_nat k) \<subseteq> digit_chars"
proof (induction k rule: str_nat.induct)
  case (1 k)
  show ?case
  proof (cases "k < 10")
    case True
    then show ?thesis using digit_char_cases [of k] by (subst str_nat.simps) simp
  next
    case False
    have "k mod 10 < 10" by simp
    then have "digit_char (k mod 10) \<in> digit_chars" by (rule digit_char_cases)
    with False "1.IH" show ?thesis by (subst str_nat.simps) simp
  qed
qed

lemma str_nat_nonempty: "str_nat k \<noteq> []"
  by (subst str_nat.simps) simp

lemma str_chars: "set (str i) \<subseteq> insert CHR ''-'' digit_chars"
proof (cases "i < 0")
  case True
  then show ?thesis using str_nat_chars [of "nat (- i)"]
    by (simp add: str_def subset_insertI2)
next
  case False
  then show ?thesis using str_nat_chars [of "nat i"]
    by (simp add: str_def subset_insertI2)
qed

lemma newline_not_numeral: "newline \<notin> insert CHR ''-'' digit_chars"
  by (simp add: newline_def digit_chars_def)

lemma space_not_numeral: "space \<notin> insert CHR ''-'' digit_chars"
  by (simp add: space_def digit_chars_def)

lemma str_no_newline [simp]: "newline \<notin> set (str i)"
  using str_chars [of i] newline_not_numeral by (rule contra_subsetD)

lemma str_no_space [simp]: "space \<notin> set (str i)"
  using str_chars [of i] space_not_numeral by (rule contra_subsetD)

lemma str_nonempty [simp]: "str i \<noteq> []"
  by (simp add: str_def str_nat_nonempty)

lemma split_no_sep: "c \<notin> set x \<Longrightarrow> split c x = [x]"
  by (induction x) auto

lemma split_append_sep: "c \<notin> set x \<Longrightarrow> split c (x @ c # rest) = x # split c rest"
  by (induction x) (auto split: list.splits)

lemma split_nonempty [simp]: "split c s \<noteq> []"
  by (induction s) (auto split: list.splits)

lemma split_join:
  "xs \<noteq> [] \<Longrightarrow> (\<And>x. x \<in> set xs \<Longrightarrow> c \<notin> set x) \<Longrightarrow> split c (join [c] xs) = xs"
proof (induction "[c]" xs rule: join.induct)
  case 1
  then show ?case by simp
next
  case (2 x)
  then show ?case by (simp add: split_no_sep)
next
  case (3 x y ys)
  have "split c (join [c] (y # ys)) = y # ys"
    using 3 by simp
  moreover have "c \<notin> set x" using 3 by simp
  ultimately show ?case by (simp add: split_append_sep)
qed

lemma join_chars:
  "set (join sep xs) \<subseteq> set sep \<union> \<Union> (set ` set xs)"
  by (induction sep xs rule: join.induct) auto


lemma randint_list_sampled:
  "a \<le> b \<Longrightarrow> randint_list k a b g = (Inr (sampled k a b g), skip k g)"
  by (simp add: randint_list_ok sampled_def)

lemma sampled_length [simp]: "length (sampled k a b g) = k"
  by (simp add: sampled_def)

lemma sampled_bounds: "a \<le> b \<Longrightarrow> v \<in> set (sampled k a b g) \<Longrightarrow> a \<le> v \<and> v \<le> b"
proof -
  assume ab: "a \<le> b" and "v \<in> set (sampled k a b g)"
  then obtain i where v: "v = a + int (g i mod nat (b - a + 1))" by (auto simp: sampled_def)
  have "int (g i mod nat (b - a + 1)) < b - a + 1" using ab by (intro mod_nat_less) simp
  with v show ?thesis by simp
qed

lemma header_split:
  "split space (str m @ '' '' @ str n @ '' '' @ str ne @ '' '' @ str b) = [str m, str n, str ne, str b]"
proof -
  have "str m @ '' '' @ str n @ '' '' @ str ne @ '' '' @ str b = join [space] [str m, str n, str ne, str b]"
    by (simp add: space_def)
  moreover have "split space (join [space] [str m, str n, str ne, str b]) = [str m, str n, str ne, str b]"
    by (rule split_join) auto
  ultimately show ?thesis by simp
qed

lemma values_split:
  "vs \<noteq> [] \<Longrightarrow> split space (join '' '' (map str vs)) = map str vs"
proof -
  assume "vs \<noteq> []"
  then have "split space (join [space] (map str vs)) = map str vs"
    by (intro split_join) auto
  then show ?thesis by (simp add: space_def)
qed


lemma newline_not_space: "newline \<noteq> space"
  by (simp add: newline_def space_def)

lemma join_values_no_newline: "newline \<notin> set (join '' '' (map str vs))"
proof
  assume "newline \<in> set (join '' '' (map str vs))"
  then have "newline \<in> set '' '' \<union> \<Union> (set ` set (map str vs))"
    using join_chars by (rule subsetD [rotated])
  then show False using newline_not_space by (auto simp: space_def)
qed

lemma out_lines_no_newline:
  "l \<in> set (out_lines m n ne b benefits deps pairs) \<Longrightarrow> newline \<notin> set l"
  using newline_not_space join_values_no_newline
  by (auto simp: out_lines_def pair_line_def space_def)

lemma lines_split:
  "split newline (join [newline] (out_lines m n ne b benefits deps pairs)) =
   out_lines m n ne b benefits deps pairs"
  by (rule split_join) (simp_all add: out_lines_def out_lines_no_newline [unfolded out_lines_def])

lemma out_lines_nth:
  "out_lines m n ne b benefits deps pairs ! 0 = str m @ '' '' @ str n @ '' '' @ str ne @ '' '' @ str b"
  "out_lines m n ne b benefits deps pairs ! 1 = join '' '' (map str benefits)"
  "out_lines m n ne b benefits deps pairs ! 2 = join '' '' (map str deps)"
  "drop 3 (out_lines m n ne b benefits deps pairs) = map pair_line pairs"
  by (simp_all add: out_lines_def)

section \<open>Facts about gerador_de_instancias.py\<close>

lemma randint_list_cases:
  "randint_list k a b g =
     (if a \<le> b \<or> k = 0 then (Inr (sampled k a b g), skip k g)
      else (Inl (ValueError ''empty range in randrange''), g))"
proof (cases "a \<le> b")
  case True
  then show ?thesis by (simp add: randint_list_sampled)
next
  case False
  then show ?thesis by (cases k) (simp_all add: randint_empty sampled_def)
qed

lemma all_pairs_product: "all_pairs m n = List.product (range_py m) (range_py n)"
  by (simp add: all_pairs_def product_concat_map)

lemma all_pairs_length [simp]: "length (all_pairs m n) = nat m * nat n"
  by (simp add: all_pairs_product)

lemma all_pairs_distinct [simp]: "distinct (all_pairs m n)"
  by (simp add: all_pairs_product distinct_product)

lemma all_pairs_set: "set (all_pairs m n) = pair_range m n"
  by (simp add: all_pairs_product pair_range_def range_py_set)

lemma slice_to_length:
  "0 \<le> k \<Longrightarrow> k \<le> int (length xs) \<Longrightarrow> int (length (slice_to k xs)) = k"
  by (simp add: slice_to_def)

lemma slice_to_subset: "set (slice_to k xs) \<subseteq> set xs"
  by (simp add: slice_to_def set_take_subset)

lemma slice_to_distinct: "distinct xs \<Longrightarrow> distinct (slice_to k xs)"
  by (simp add: slice_to_def)

lemma gerador_eq:
  assumes "10 \<le> benefit_max" "5 \<le> dep_max"
  shows "\<exists>shuffled g'. mset shuffled = mset (all_pairs m n) \<and>
     gen_instance_gerador seed_state m n ne b benefit_max dep_max seed w =
       (if ne > int (length shuffled)
        then (Inl (ValueError ''ne cannot exceed m*n''), w\<lparr>random_state := g'\<rparr>)
        else (Inr (join [newline] (out_lines m n ne b
                (sampled (nat m) 10 benefit_max (reseed seed_state seed (random_state w)))
                (sampled (nat n) 5 dep_max (skip (nat m) (reseed seed_state seed (random_state w))))
                (slice_to ne shuffled))), w\<lparr>random_state := g'\<rparr>))"
proof -
  let ?g0 = "reseed seed_state seed (random_state w)"
  let ?sh = "shuffle (all_pairs m n) (skip (nat n) (skip (nat m) ?g0))"
  have "mset (fst ?sh) = mset (all_pairs m n)" by (rule shuffle_perm)
  moreover have "gen_instance_gerador seed_state m n ne b benefit_max dep_max seed w =
       (if ne > int (length (fst ?sh))
        then (Inl (ValueError ''ne cannot exceed m*n''), w\<lparr>random_state := snd ?sh\<rparr>)
        else (Inr (join [newline] (out_lines m n ne b
                (sampled (nat m) 10 benefit_max ?g0)
                (sampled (nat n) 5 dep_max (skip (nat m) ?g0))
                (slice_to ne (fst ?sh)))), w\<lparr>random_state := snd ?sh\<rparr>))"
    using assms
    by (simp add: gen_instance_gerador_def Let_def randint_list_sampled case_prod_beta del: skip_skip)
  ultimately show ?thesis by (intro exI conjI)
qed

lemma gerador_raises_above:
  assumes "int (nat m * nat n) < ne"
  shows "\<exists>msg w'. gen_instance_gerador seed_state m n ne b benefit_max dep_max seed w =
           (Inl (ValueError msg), w')"
proof -
  have len: "length (fst (shuffle (all_pairs m n) g)) = nat m * nat n" for g
    using mset_eq_length [OF shuffle_perm [of "all_pairs m n" g]] by simp
  have "(0::int) \<le> int (nat m * nat n)" by (rule of_nat_0_le_iff)
  then have pos: "0 < ne" using assms by (rule le_less_trans)
  show ?thesis using assms pos
    by (simp add: gen_instance_gerador_def Let_def randint_list_cases case_prod_beta len)
qed

section \<open>Facts about instance_generator.py\<close>

lemma clamp_pair:
  "(if ne < m then (m, [too_small_msg ne m])
    else if ne > m * n then (m * n, [too_large_msg ne (m * n)])
    else (ne, [])) = (clamp_ne m n ne, warnings m n ne)"
  by (simp add: clamp_ne_def warnings_def)

lemma m_le_mn: "1 \<le> m \<Longrightarrow> 1 \<le> n \<Longrightarrow> m \<le> m * (n::int)"
  using mult_left_mono [of 1 n m] by simp

lemma clamp_ne_bounds:
  "1 \<le> m \<Longrightarrow> 1 \<le> n \<Longrightarrow> m \<le> clamp_ne m n ne \<and> clamp_ne m n ne \<le> m * n"
  using m_le_mn [of m n] by (simp add: clamp_ne_def)

lemma clamp_ne_valid: "m \<le> ne \<Longrightarrow> ne \<le> m * n \<Longrightarrow> clamp_ne m n ne = ne"
  by (simp add: clamp_ne_def)

lemma warnings_valid: "m \<le> ne \<Longrightarrow> ne \<le> m * n \<Longrightarrow> warnings m n ne = []"
  by (simp add: warnings_def)

lemma cover_set_range: "1 \<le> n \<Longrightarrow> cover_set m n g \<subseteq> pair_range m n"
  by (auto simp: cover_set_def pair_range_def mod_nat_less)

lemma cover_range_py:
  assumes n: "1 \<le> n"
  shows "\<exists>ps. cover (range_py m) n [] g = (Inr ps, skip (nat m) g) \<and>
           set ps = cover_set m n g \<and> distinct ps \<and> length ps = nat m"
proof -
  obtain ps where c: "cover (range_py m) n [] g = (Inr ps, skip (length (range_py m)) g)"
    and s: "set ps = set [] \<union> (\<lambda>k. (range_py m ! k, int (g k mod nat n))) ` {..<length (range_py m)}"
    and d: "distinct ps = distinct ([] :: (int \<times> int) list)"
    and l: "distinct (range_py m) \<and> set (range_py m) \<inter> fst ` set ([] :: (int \<times> int) list) = {} \<longrightarrow>
            length ps = length ([] :: (int \<times> int) list) + length (range_py m)"
    using cover_ok [OF n, of "range_py m" "[]" g] by (elim exE conjE) (rule that, assumption+)
  have "(\<lambda>k. (range_py m ! k, int (g k mod nat n))) ` {..<nat m} = cover_set m n g"
    unfolding cover_set_def by (rule image_cong) (simp_all add: range_py_nth)
  with s have "set ps = cover_set m n g" by simp
  moreover have "distinct ps" using d by simp
  moreover have "length ps = nat m" using l by simp
  moreover have "cover (range_py m) n [] g = (Inr ps, skip (nat m) g)" using c by simp
  ultimately show ?thesis by (intro exI [of _ ps] conjI)
qed

lemma gen_instance_eq:
  assumes "1 \<le> n" "10 \<le> benefit_max" "5 \<le> dep_max"
  shows "\<exists>ps. set ps = cover_set m n (cover_tape seed_state m n seed w) \<and> distinct ps \<and>
           length ps = nat m \<and>
     gen_instance seed_state set_order m n ne b benefit_max dep_max seed w =
       (case fill m n (clamp_ne m n ne) ps (loop_tape seed_state m n seed w) of
          None \<Rightarrow> None
        | Some (Inl e, g4) \<Rightarrow>
            Some (Inl e, w\<lparr>console := console w @ warnings m n ne, random_state := g4\<rparr>)
        | Some (Inr pairs_set, g4) \<Rightarrow>
            Some (Inr (join [newline] (out_lines m n (clamp_ne m n ne) b
                    (benefits_drawn seed_state m benefit_max seed w)
                    (weights_drawn seed_state m n dep_max seed w)
                    (fst (shuffle (set_order pairs_set) g4)))),
                  w\<lparr>console := console w @ warnings m n ne,
                    random_state := snd (shuffle (set_order pairs_set) g4)\<rparr>))"
proof -
  obtain ps where c: "cover (range_py m) n [] (cover_tape seed_state m n seed w) =
        (Inr ps, skip (nat m) (cover_tape seed_state m n seed w))"
    and p: "set ps = cover_set m n (cover_tape seed_state m n seed w)" "distinct ps" "length ps = nat m"
    using cover_range_py [OF assms(1), of m "cover_tape seed_state m n seed w"]
    by (elim exE conjE) (rule that, assumption+)
  have "gen_instance seed_state set_order m n ne b benefit_max dep_max seed w =
       (case fill m n (clamp_ne m n ne) ps (loop_tape seed_state m n seed w) of
          None \<Rightarrow> None
        | Some (Inl e, g4) \<Rightarrow>
            Some (Inl e, w\<lparr>console := console w @ warnings m n ne, random_state := g4\<rparr>)
        | Some (Inr pairs_set, g4) \<Rightarrow>
            Some (Inr (join [newline] (out_lines m n (clamp_ne m n ne) b
                    (benefits_drawn seed_state m benefit_max seed w)
                    (weights_drawn seed_state m n dep_max seed w)
                    (fst (shuffle (set_order pairs_set) g4)))),
                  w\<lparr>console := console w @ warnings m n ne,
                    random_state := snd (shuffle (set_order pairs_set) g4)\<rparr>))"
    using assms c [unfolded cover_tape_def]
    by (simp add: gen_instance_def Let_def clamp_pair randint_list_sampled case_prod_beta
        benefits_drawn_def weights_drawn_def loop_tape_def cover_tape_def
        del: skip_skip split: option.splits sum.splits)
  with p show ?thesis by (intro exI [of _ ps] conjI)
qed

lemma shuffled_set_order:
  "lists_each_once set_order \<Longrightarrow> mset (fst (shuffle (set_order ps) g)) = mset ps"
  by (simp add: shuffle_perm lists_each_once_def)

lemma gen_instance_partial:
  assumes m: "1 \<le> m" and n: "1 \<le> n" and bm: "10 \<le> benefit_max" and dm: "5 \<le> dep_max"
    and so: "lists_each_once set_order"
    and run: "gen_instance seed_state set_order m n ne b benefit_max dep_max seed w = Some r"
  shows "\<exists>pairs w'.
     r = (Inr (join [newline] (out_lines m n (clamp_ne m n ne) b
                    (benefits_drawn seed_state m benefit_max seed w)
                    (weights_drawn seed_state m n dep_max seed w) pairs)), w') \<and>
     console w' = console w @ warnings m n ne \<and> storage w' = storage w \<and>
     distinct pairs \<and> set pairs \<subseteq> pair_range m n \<and> int (length pairs) = clamp_ne m n ne \<and>
     cover_set m n (cover_tape seed_state m n seed w) \<subseteq> set pairs"
proof -
  let ?ne = "clamp_ne m n ne"
  let ?g3 = "loop_tape seed_state m n seed w"
  let ?w = "w\<lparr>console := console w @ warnings m n ne\<rparr>"
  obtain ps where s: "set ps = cover_set m n (cover_tape seed_state m n seed w)"
    and d: "distinct ps" and l: "length ps = nat m"
    and eq: "gen_instance seed_state set_order m n ne b benefit_max dep_max seed w =
       (case fill m n ?ne ps ?g3 of
          None \<Rightarrow> None
        | Some (Inl e, g4) \<Rightarrow>
            Some (Inl e, w\<lparr>console := console w @ warnings m n ne, random_state := g4\<rparr>)
        | Some (Inr pairs_set, g4) \<Rightarrow>
            Some (Inr (join [newline] (out_lines m n ?ne b
                    (benefits_drawn seed_state m benefit_max seed w)
                    (weights_drawn seed_state m n dep_max seed w)
                    (fst (shuffle (set_order pairs_set) g4)))),
                  w\<lparr>console := console w @ warnings m n ne,
                    random_state := snd (shuffle (set_order pairs_set) g4)\<rparr>))"
    using gen_instance_eq [OF n bm dm, of m seed_state seed w set_order ne b]
    by (elim exE conjE) (rule that, assumption+)
  have sub: "set ps \<subseteq> pair_range m n" using s cover_set_range [OF n] by simp
  obtain r' where f: "fill m n ?ne ps ?g3 = Some r'"
    using run eq by (cases "fill m n ?ne ps ?g3") simp_all
  obtain ps' g' where r': "r' = (Inr ps', g')" and d': "distinct ps'"
    and s1: "set ps \<subseteq> set ps'" and s2: "set ps' \<subseteq> pair_range m n"
    and l': "int (length ps') = max (int (length ps)) ?ne"
    using fill_partial [OF f m n d sub] by (elim exE conjE) (rule that, assumption+)
  let ?pairs = "fst (shuffle (set_order ps') g')"
  let ?w' = "w\<lparr>console := console w @ warnings m n ne,
                random_state := snd (shuffle (set_order ps') g')\<rparr>"
  have ms: "mset ?pairs = mset ps'" using so by (rule shuffled_set_order)
  have 1: "r = (Inr (join [newline] (out_lines m n ?ne b
                    (benefits_drawn seed_state m benefit_max seed w)
                    (weights_drawn seed_state m n dep_max seed w) ?pairs)), ?w')"
    using run eq f r' by simp
  have 2: "console ?w' = console w @ warnings m n ne" by simp
  have 3: "storage ?w' = storage w" by simp
  have 4: "distinct ?pairs" using d' mset_eq_imp_distinct_iff [OF ms] by simp
  have se: "set ?pairs = set ps'" using ms by (rule mset_eq_setD)
  have 5: "set ?pairs \<subseteq> pair_range m n" using s2 se by simp
  have "int (length ps) \<le> ?ne" using l m clamp_ne_bounds [OF m n, of ne] by simp
  then have "int (length ps') = ?ne" using l' by simp
  then have 6: "int (length ?pairs) = ?ne" using mset_eq_length [OF ms] by simp
  have 7: "cover_set m n (cover_tape seed_state m n seed w) \<subseteq> set ?pairs"
    using s s1 se by simp
  show ?thesis by (intro exI [of _ ?pairs] exI [of _ ?w'] conjI 1 2 3 4 5 6 7)
qed

lemma gen_instance_total:
  assumes m: "1 \<le> m" and n: "1 \<le> n" and bm: "10 \<le> benefit_max" and dm: "5 \<le> dep_max"
    and fair: "fair_pairs m n (loop_tape seed_state m n seed w)"
  shows "\<exists>r. gen_instance seed_state set_order m n ne b benefit_max dep_max seed w = Some r"
proof -
  let ?ne = "clamp_ne m n ne"
  let ?g3 = "loop_tape seed_state m n seed w"
  obtain ps where s: "set ps = cover_set m n (cover_tape seed_state m n seed w)"
    and d: "distinct ps" and l: "length ps = nat m"
    and eq: "gen_instance seed_state set_order m n ne b benefit_max dep_max seed w =
       (case fill m n ?ne ps ?g3 of
          None \<Rightarrow> None
        | Some (Inl e, g4) \<Rightarrow>
            Some (Inl e, w\<lparr>console := console w @ warnings m n ne, random_state := g4\<rparr>)
        | Some (Inr pairs_set, g4) \<Rightarrow>
            Some (Inr (join [newline] (out_lines m n ?ne b
                    (benefits_drawn seed_state m benefit_max seed w)
                    (weights_drawn seed_state m n dep_max seed w)
                    (fst (shuffle (set_order pairs_set) g4)))),
                  w\<lparr>console := console w @ warnings m n ne,
                    random_state := snd (shuffle (set_order pairs_set) g4)\<rparr>))"
    using gen_instance_eq [OF n bm dm, of m seed_state seed w set_order ne b]
    by (elim exE conjE) (rule that, assumption+)
  have sub: "set ps \<subseteq> pair_range m n" using s cover_set_range [OF n] by simp
  have le: "?ne \<le> m * n" using clamp_ne_bounds [OF m n, of ne] by simp
  obtain r' where f: "fill m n ?ne ps ?g3 = Some r'"
    using fill_terminates [OF m n le fair d sub] by (elim exE) (rule that)
  show ?thesis unfolding eq f by (simp split: prod.splits sum.splits)
qed

lemma gen_instance_minimal:
  assumes m: "1 \<le> m" and n: "1 \<le> n" and bm: "10 \<le> benefit_max" and dm: "5 \<le> dep_max"
    and so: "lists_each_once set_order" and ne: "ne \<le> m"
  shows "\<exists>pairs w'.
     gen_instance seed_state set_order m n ne b benefit_max dep_max seed w =
       Some (Inr (join [newline] (out_lines m n m b
                    (benefits_drawn seed_state m benefit_max seed w)
                    (weights_drawn seed_state m n dep_max seed w) pairs)), w') \<and>
     distinct pairs \<and> int (length pairs) = m \<and>
     set pairs = cover_set m n (cover_tape seed_state m n seed w)"
proof -
  have c: "clamp_ne m n ne = m" using ne m_le_mn [OF m n] by (simp add: clamp_ne_def)
  let ?g3 = "loop_tape seed_state m n seed w"
  obtain ps where s: "set ps = cover_set m n (cover_tape seed_state m n seed w)"
    and d: "distinct ps" and l: "length ps = nat m"
    and eq: "gen_instance seed_state set_order m n ne b benefit_max dep_max seed w =
       (case fill m n (clamp_ne m n ne) ps ?g3 of
          None \<Rightarrow> None
        | Some (Inl e, g4) \<Rightarrow>
            Some (Inl e, w\<lparr>console := console w @ warnings m n ne, random_state := g4\<rparr>)
        | Some (Inr pairs_set, g4) \<Rightarrow>
            Some (Inr (join [newline] (out_lines m n (clamp_ne m n ne) b
                    (benefits_drawn seed_state m benefit_max seed w)
                    (weights_drawn seed_state m n dep_max seed w)
                    (fst (shuffle (set_order pairs_set) g4)))),
                  w\<lparr>console := console w @ warnings m n ne,
                    random_state := snd (shuffle (set_order pairs_set) g4)\<rparr>))"
    using gen_instance_eq [OF n bm dm, of m seed_state seed w set_order ne b]
    by (elim exE conjE) (rule that, assumption+)
  have "\<not> int (length ps) < m" using l m by simp
  then have f: "fill m n m ps ?g3 = Some (Inr ps, ?g3)" by (rule fill_done)
  let ?pairs = "fst (shuffle (set_order ps) ?g3)"
  let ?w' = "w\<lparr>console := console w @ warnings m n ne,
                random_state := snd (shuffle (set_order ps) ?g3)\<rparr>"
  have ms: "mset ?pairs = mset ps" using so by (rule shuffled_set_order)
  have 1: "gen_instance seed_state set_order m n ne b benefit_max dep_max seed w =
       Some (Inr (join [newline] (out_lines m n m b
                    (benefits_drawn seed_state m benefit_max seed w)
                    (weights_drawn seed_state m n dep_max seed w) ?pairs)), ?w')"
    using eq f c by simp
  have 2: "distinct ?pairs" using d mset_eq_imp_distinct_iff [OF ms] by simp
  have 3: "int (length ?pairs) = m" using mset_eq_length [OF ms] l m by simp
  have 4: "set ?pairs = cover_set m n (cover_tape seed_state m n seed w)"
    using mset_eq_setD [OF ms] s by simp
  show ?thesis by (intro exI [of _ ?pairs] exI [of _ ?w'] conjI 1 2 3 4)
qed


lemma benefits_drawn_length [simp]: "length (benefits_drawn seed_state m benefit_max seed w) = nat m"
  by (simp add: benefits_drawn_def)

lemma weights_drawn_length [simp]: "length (weights_drawn seed_state m n dep_max seed w) = nat n"
  by (simp add: weights_drawn_def)

lemma sampled_subset: "a \<le> b \<Longrightarrow> set (sampled k a b g) \<subseteq> {a..b}"
proof
  fix v
  assume "a \<le> b" "v \<in> set (sampled k a b g)"
  then have "a \<le> v \<and> v \<le> b" by (rule sampled_bounds)
  then show "v \<in> {a..b}" by simp
qed

lemma benefits_drawn_bounds:
  "10 \<le> benefit_max \<Longrightarrow> set (benefits_drawn seed_state m benefit_max seed w) \<subseteq> {10..benefit_max}"
  unfolding benefits_drawn_def by (rule sampled_subset)

lemma weights_drawn_bounds:
  "5 \<le> dep_max \<Longrightarrow> set (weights_drawn seed_state m n dep_max seed w) \<subseteq> {5..dep_max}"
  unfolding weights_drawn_def by (rule sampled_subset)

lemma gen_instance_fair_run:
  assumes m: "1 \<le> m" and n: "1 \<le> n" and bm: "10 \<le> benefit_max" and dm: "5 \<le> dep_max"
    and so: "lists_each_once set_order"
    and fair: "fair_pairs m n (loop_tape seed_state m n seed w)"
  shows "\<exists>pairs w'.
     gen_instance seed_state set_order m n ne b benefit_max dep_max seed w =
       Some (Inr (join [newline] (out_lines m n (clamp_ne m n ne) b
                    (benefits_drawn seed_state m benefit_max seed w)
                    (weights_drawn seed_state m n dep_max seed w) pairs)), w') \<and>
     console w' = console w @ warnings m n ne \<and> storage w' = storage w \<and>
     distinct pairs \<and> set pairs \<subseteq> pair_range m n \<and> int (length pairs) = clamp_ne m n ne \<and>
     cover_set m n (cover_tape seed_state m n seed w) \<subseteq> set pairs"
proof -
  obtain r where r: "gen_instance seed_state set_order m n ne b benefit_max dep_max seed w = Some r"
    using gen_instance_total [OF m n bm dm fair, of set_order ne b] by (elim exE) (rule that)
  show ?thesis using gen_instance_partial [OF m n bm dm so r] unfolding r by simp
qed

lemma gerador_run:
  assumes bm: "10 \<le> benefit_max" and dm: "5 \<le> dep_max"
    and ne: "ne \<le> int (nat m * nat n)"
  shows "\<exists>shuffled w'.
     gen_instance_gerador seed_state m n ne b benefit_max dep_max seed w =
       (Inr (join [newline] (out_lines m n ne b
                    (benefits_drawn seed_state m benefit_max seed w)
                    (weights_drawn seed_state m n dep_max seed w) (slice_to ne shuffled))), w') \<and>
     console w' = console w \<and> storage w' = storage w \<and>
     distinct shuffled \<and> set shuffled = pair_range m n \<and> length shuffled = nat m * nat n"
proof -
  obtain shuffled g' where ms: "mset shuffled = mset (all_pairs m n)"
    and eq: "gen_instance_gerador seed_state m n ne b benefit_max dep_max seed w =
       (if ne > int (length shuffled)
        then (Inl (ValueError ''ne cannot exceed m*n''), w\<lparr>random_state := g'\<rparr>)
        else (Inr (join [newline] (out_lines m n ne b
                (sampled (nat m) 10 benefit_max (reseed seed_state seed (random_state w)))
                (sampled (nat n) 5 dep_max (skip (nat m) (reseed seed_state seed (random_state w))))
                (slice_to ne shuffled))), w\<lparr>random_state := g'\<rparr>))"
    using gerador_eq [OF bm dm, of m n seed_state ne b seed w]
    by (elim exE conjE) (rule that, assumption+)
  have l: "length shuffled = nat m * nat n" using mset_eq_length [OF ms] by simp
  have d: "distinct shuffled" using mset_eq_imp_distinct_iff [OF ms] by simp
  have s: "set shuffled = pair_range m n" using mset_eq_setD [OF ms] by (simp add: all_pairs_set)
  have 1: "gen_instance_gerador seed_state m n ne b benefit_max dep_max seed w =
       (Inr (join [newline] (out_lines m n ne b
                    (benefits_drawn seed_state m benefit_max seed w)
                    (weights_drawn seed_state m n dep_max seed w) (slice_to ne shuffled))),
        w\<lparr>random_state := g'\<rparr>)"
    using eq ne l by (simp add: benefits_drawn_def weights_drawn_def)
  show ?thesis
    by (intro exI [of _ shuffled] exI [of _ "w\<lparr>random_state := g'\<rparr>"] conjI 1 d s l) simp_all
qed

section \<open>Facts about the sample inputs\<close>

lemma lists_each_once_id: "lists_each_once id"
  by (simp add: lists_each_once_def)

lemma loop_tape_example:
  "loop_tape seed_state_example 2 2 (Some 0) world_example = skip 6 tape_example"
  by (simp add: loop_tape_def cover_tape_def reseed_def seed_state_example_def)

lemma draw_pair_example:
  "draw_pair 2 2 (skip (2 * k) (skip 6 tape_example)) =
     (int ((k + 3) div 2 mod 2), int ((k + 3) mod 2))"
proof -
  have "(2 * k + 6) div 4 mod 2 = (k + 3) div 2 mod 2" by presburger
  moreover have "(2 * k + 6) div 2 mod 2 = (k + 3) mod 2" by presburger
  ultimately show ?thesis
    by (simp add: draw_pair_def skip_apply tape_example_def)
qed

lemma tape_example_fair:
  "fair_pairs 2 2 (loop_tape seed_state_example 2 2 (Some 0) world_example)"
  unfolding fair_pairs_def loop_tape_example draw_pair_example
proof (intro allI ballI)
  fix j :: nat and q :: "int \<times> int"
  assume "q \<in> pair_range 2 2"
  then have "fst q \<in> {0, 1} \<and> snd q \<in> {0, 1}" by (auto simp: pair_range_def)
  then consider "q = (0, 0)" | "q = (0, 1)" | "q = (1, 0)" | "q = (1, 1)"
    by (cases q) auto
  then show "\<exists>k\<ge>j. (int ((k + 3) div 2 mod 2), int ((k + 3) mod 2)) = q"
  proof cases
    case 1
    have "(4 * j + 1 + 3) div 2 mod 2 = 0" "(4 * j + 1 + 3) mod 2 = 0" by presburger+
    then show ?thesis using 1 by (intro exI [of _ "4 * j + 1"]) simp
  next
    case 2
    have "(4 * j + 2 + 3) div 2 mod 2 = 0" "(4 * j + 2 + 3) mod 2 = 1" by presburger+
    then show ?thesis using 2 by (intro exI [of _ "4 * j + 2"]) simp
  next
    case 3
    have "(4 * j + 3 + 3) div 2 mod 2 = 1" "(4 * j + 3 + 3) mod 2 = 0" by presburger+
    then show ?thesis using 3 by (intro exI [of _ "4 * j + 3"]) simp
  next
    case 4
    have "(4 * j + 3) div 2 mod 2 = 1" "(4 * j + 3) mod 2 = 1" by presburger+
    then show ?thesis using 4 by (intro exI [of _ "4 * j"]) simp
  qed
qed

section \<open>The claims\<close>

text \<open>
  C1. For sizes \<open>m, n \<ge> 1\<close>, an edge count \<open>m \<le> ne \<le> m * n\<close> and non-empty sampling ranges,
  both generators emit exactly \<open>ne\<close> pairwise different pairs, each in
  \<open>[0, m) \<times> [0, n)\<close>, whatever the seed. gerador_de_instancias.py always returns them.
  instance_generator.py returns them on every tape that is fair for its loop, and on any
  tape a call that returns at all returns such pairs.
\<close>

theorem C1_pairs_unique_in_range:
  assumes "1 \<le> m" "1 \<le> n" "m \<le> ne" "ne \<le> m * n" "10 \<le> benefit_max" "5 \<le> dep_max"
  shows "(\<exists>pairs w'.
            gen_instance_gerador seed_state m n ne b benefit_max dep_max seed w =
              (Inr (join [newline] (out_lines m n ne b
                      (benefits_drawn seed_state m benefit_max seed w)
                      (weights_drawn seed_state m n dep_max seed w) pairs)), w') \<and>
            distinct pairs \<and> int (length pairs) = ne \<and> set pairs \<subseteq> pair_range m n) \<and>
         (lists_each_once set_order \<longrightarrow> fair_pairs m n (loop_tape seed_state m n seed w) \<longrightarrow>
          (\<exists>pairs w'.
            gen_instance seed_state set_order m n ne b benefit_max dep_max seed w =
              Some (Inr (join [newline] (out_lines m n ne b
                      (benefits_drawn seed_state m benefit_max seed w)
                      (weights_drawn seed_state m n dep_max seed w) pairs)), w') \<and>
            distinct pairs \<and> int (length pairs) = ne \<and> set pairs \<subseteq> pair_range m n)) \<and>
         (\<forall>r. lists_each_once set_order \<longrightarrow>
            gen_instance seed_state set_order m n ne b benefit_max dep_max seed w = Some r \<longrightarrow>
          (\<exists>pairs w'.
            r = (Inr (join [newline] (out_lines m n ne b
                      (benefits_drawn seed_state m benefit_max seed w)
                      (weights_drawn seed_state m n dep_max seed w) pairs)), w') \<and>
            distinct pairs \<and> int (length pairs) = ne \<and> set pairs \<subseteq> pair_range m n))"
proof (intro conjI allI impI)
  have mn: "int (nat m * nat n) = m * n" using assms(1,2) by (simp add: nat_mult_distrib)
  then have le: "ne \<le> int (nat m * nat n)" using assms(4) by simp
  obtain shuffled w' where eq: "gen_instance_gerador seed_state m n ne b benefit_max dep_max seed w =
       (Inr (join [newline] (out_lines m n ne b
                    (benefits_drawn seed_state m benefit_max seed w)
                    (weights_drawn seed_state m n dep_max seed w) (slice_to ne shuffled))), w')"
    and d: "distinct shuffled" and s: "set shuffled = pair_range m n"
    and l: "length shuffled = nat m * nat n"
    using gerador_run [OF assms(5,6) le, of seed_state b seed w]
    by (elim exE conjE) (rule that, assumption+)
  have 1: "distinct (slice_to ne shuffled)" using d by (rule slice_to_distinct)
  have "0 \<le> ne" using assms(1,3) by simp
  then have 2: "int (length (slice_to ne shuffled)) = ne"
    using le l by (intro slice_to_length) simp_all
  have 3: "set (slice_to ne shuffled) \<subseteq> pair_range m n"
    using slice_to_subset [of ne shuffled] s by simp
  show "\<exists>pairs w'.
            gen_instance_gerador seed_state m n ne b benefit_max dep_max seed w =
              (Inr (join [newline] (out_lines m n ne b
                      (benefits_drawn seed_state m benefit_max seed w)
                      (weights_drawn seed_state m n dep_max seed w) pairs)), w') \<and>
            distinct pairs \<and> int (length pairs) = ne \<and> set pairs \<subseteq> pair_range m n"
    by (intro exI [of _ "slice_to ne shuffled"] exI [of _ w'] conjI eq 1 2 3)
next
  assume so: "lists_each_once set_order"
    and fair: "fair_pairs m n (loop_tape seed_state m n seed w)"
  show "\<exists>pairs w'.
            gen_instance seed_state set_order m n ne b benefit_max dep_max seed w =
              Some (Inr (join [newline] (out_lines m n ne b
                      (benefits_drawn seed_state m benefit_max seed w)
                      (weights_drawn seed_state m n dep_max seed w) pairs)), w') \<and>
            distinct pairs \<and> int (length pairs) = ne \<and> set pairs \<subseteq> pair_range m n"
    using gen_instance_fair_run [OF assms(1,2,5,6) so fair, of ne b]
    unfolding clamp_ne_valid [OF assms(3,4)]
    by (elim exE conjE) (intro exI conjI, assumption+)
next
  fix r
  assume so: "lists_each_once set_order"
    and run: "gen_instance seed_state set_order m n ne b benefit_max dep_max seed w = Some r"
  show "\<exists>pairs w'.
            r = (Inr (join [newline] (out_lines m n ne b
                      (benefits_drawn seed_state m benefit_max seed w)
                      (weights_drawn seed_state m n dep_max seed w) pairs)), w') \<and>
            distinct pairs \<and> int (length pairs) = ne \<and> set pairs \<subseteq> pair_range m n"
    using gen_instance_partial [OF assms(1,2,5,6) so run]
    unfolding clamp_ne_valid [OF assms(3,4)]
    by (elim exE conjE) (intro exI conjI, assumption+)
qed

theorem C1_pairs_unique_in_range_witness:
  "(\<exists>pairs w'.
      gen_instance_gerador seed_state_example 2 2 3 100 600 400 (Some 0) world_example =
        (Inr (join [newline] (out_lines 2 2 3 100
                (benefits_drawn seed_state_example 2 600 (Some 0) world_example)
                (weights_drawn seed_state_example 2 2 400 (Some 0) world_example) pairs)), w') \<and>
      distinct pairs \<and> int (length pairs) = 3 \<and> set pairs \<subseteq> pair_range 2 2) \<and>
   (\<exists>pairs w'.
      gen_instance seed_state_example id 2 2 3 100 600 400 (Some 0) world_example =
        Some (Inr (join [newline] (out_lines 2 2 3 100
                (benefits_drawn seed_state_example 2 600 (Some 0) world_example)
                (weights_drawn seed_state_example 2 2 400 (Some 0) world_example) pairs)), w') \<and>
      distinct pairs \<and> int (length pairs) = 3 \<and> set pairs \<subseteq> pair_range 2 2)"
  using lists_each_once_id [where 'a = "int \<times> int"] tape_example_fair
    C1_pairs_unique_in_range [of 2 2 3 600 400 seed_state_example 100 "Some 0" world_example id]
  by simp

lemma cover_set_fst: "fst ` cover_set m n g = {0..<m}"
proof -
  have "fst ` cover_set m n g = int ` {0..<nat m}"
    by (simp add: cover_set_def image_image atLeast0LessThan)
  also have "\<dots> = {0..<m}"
    by (cases "0 \<le> m") (simp_all add: image_int_atLeastLessThan)
  finally show ?thesis .
qed

lemma covered_packages: "cover_set m n g \<subseteq> set pairs \<Longrightarrow> {0..<m} \<subseteq> fst ` set pairs"
  using image_mono [of "cover_set m n g" "set pairs" fst] by (simp add: cover_set_fst)

text \<open>
  C2. When a seed is given, the text that \<open>gen_instance\<close> returns (or the exception it
  raises, or its failure to return) is a function of the arguments alone: two runs with the
  same arguments agree, whatever state the process-wide generator and the rest of the
  world were in before each run. This holds for both scripts.
\<close>

theorem C2_seeded_runs_identical:
  "map_option fst (gen_instance seed_state set_order m n ne b benefit_max dep_max (Some s) w1) =
   map_option fst (gen_instance seed_state set_order m n ne b benefit_max dep_max (Some s) w2) \<and>
   fst (gen_instance_gerador seed_state m n ne b benefit_max dep_max (Some s) w1) =
   fst (gen_instance_gerador seed_state m n ne b benefit_max dep_max (Some s) w2)"
proof
  show "map_option fst (gen_instance seed_state set_order m n ne b benefit_max dep_max (Some s) w1) =
   map_option fst (gen_instance seed_state set_order m n ne b benefit_max dep_max (Some s) w2)"
    by (simp add: gen_instance_def Let_def reseed_def clamp_pair
        split: prod.splits sum.splits option.splits)
  show "fst (gen_instance_gerador seed_state m n ne b benefit_max dep_max (Some s) w1) =
   fst (gen_instance_gerador seed_state m n ne b benefit_max dep_max (Some s) w2)"
    by (simp add: gen_instance_gerador_def Let_def reseed_def split: prod.splits sum.splits)
qed

text \<open>
  C3. In instance_generator.py, for sizes \<open>m, n \<ge> 1\<close>, an edge count \<open>m \<le> ne \<le> m * n\<close> and
  non-empty sampling ranges, every package index of \<open>[0, m)\<close> is the first component of
  an emitted pair: so on every tape that is fair for the loop, where the call returns, and
  so for every call that returns at all.
\<close>

theorem C3_every_package_covered:
  assumes "1 \<le> m" "1 \<le> n" "m \<le> ne" "ne \<le> m * n" "10 \<le> benefit_max" "5 \<le> dep_max"
    and "lists_each_once set_order"
  shows "(fair_pairs m n (loop_tape seed_state m n seed w) \<longrightarrow>
          (\<exists>pairs w'.
            gen_instance seed_state set_order m n ne b benefit_max dep_max seed w =
              Some (Inr (join [newline] (out_lines m n ne b
                      (benefits_drawn seed_state m benefit_max seed w)
                      (weights_drawn seed_state m n dep_max seed w) pairs)), w') \<and>
            {0..<m} \<subseteq> fst ` set pairs)) \<and>
         (\<forall>r. gen_instance seed_state set_order m n ne b benefit_max dep_max seed w = Some r \<longrightarrow>
          (\<exists>pairs w'.
            r = (Inr (join [newline] (out_lines m n ne b
                      (benefits_drawn seed_state m benefit_max seed w)
                      (weights_drawn seed_state m n dep_max seed w) pairs)), w') \<and>
            {0..<m} \<subseteq> fst ` set pairs))"
proof (intro conjI allI impI)
  assume fair: "fair_pairs m n (loop_tape seed_state m n seed w)"
  obtain pairs w' where eq: "gen_instance seed_state set_order m n ne b benefit_max dep_max seed w =
              Some (Inr (join [newline] (out_lines m n (clamp_ne m n ne) b
                      (benefits_drawn seed_state m benefit_max seed w)
                      (weights_drawn seed_state m n dep_max seed w) pairs)), w')"
    and c: "cover_set m n (cover_tape seed_state m n seed w) \<subseteq> set pairs"
    using gen_instance_fair_run [OF assms(1,2,5,6,7) fair, of ne b]
    by (elim exE conjE) (rule that, assumption+)
  show "\<exists>pairs w'.
            gen_instance seed_state set_order m n ne b benefit_max dep_max seed w =
              Some (Inr (join [newline] (out_lines m n ne b
                      (benefits_drawn seed_state m benefit_max seed w)
                      (weights_drawn seed_state m n dep_max seed w) pairs)), w') \<and>
            {0..<m} \<subseteq> fst ` set pairs"
    using eq covered_packages [OF c] unfolding clamp_ne_valid [OF assms(3,4)]
    by (intro exI [of _ pairs] exI [of _ w'] conjI)
next
  fix r
  assume run: "gen_instance seed_state set_order m n ne b benefit_max dep_max seed w = Some r"
  obtain pairs w' where eq: "r =
              (Inr (join [newline] (out_lines m n (clamp_ne m n ne) b
                      (benefits_drawn seed_state m benefit_max seed w)
                      (weights_drawn seed_state m n dep_max seed w) pairs)), w')"
    and c: "cover_set m n (cover_tape seed_state m n seed w) \<subseteq> set pairs"
    using gen_instance_partial [OF assms(1,2,5,6,7) run]
    by (elim exE conjE) (rule that, assumption+)
  show "\<exists>pairs w'.
            r = (Inr (join [newline] (out_lines m n ne b
                      (benefits_drawn seed_state m benefit_max seed w)
                      (weights_drawn seed_state m n dep_max seed w) pairs)), w') \<and>
            {0..<m} \<subseteq> fst ` set pairs"
    using eq covered_packages [OF c] unfolding clamp_ne_valid [OF assms(3,4)]
    by (intro exI [of _ pairs] exI [of _ w'] conjI)
qed

theorem C3_every_package_covered_witness:
  "\<exists>pairs w'.
      gen_instance seed_state_example id 2 2 3 100 600 400 (Some 0) world_example =
        Some (Inr (join [newline] (out_lines 2 2 3 100
                (benefits_drawn seed_state_example 2 600 (Some 0) world_example)
                (weights_drawn seed_state_example 2 2 400 (Some 0) world_example) pairs)), w') \<and>
      {0..<2} \<subseteq> fst ` set pairs"
  using lists_each_once_id [where 'a = "int \<times> int"] tape_example_fair
    C3_every_package_covered [of 2 2 3 600 400 id seed_state_example "Some 0" world_example 100]
  by simp

lemma nat_mult_sizes: "0 \<le> m \<Longrightarrow> 0 \<le> n \<Longrightarrow> int (nat m * nat n) = m * n"
  by (simp add: nat_mult_distrib)

lemma gen_instance_no_dependencies:
  assumes "1 \<le> m" "n \<le> 0"
  shows "\<exists>msg w'. gen_instance seed_state set_order m n ne b benefit_max dep_max seed w =
           Some (Inl (ValueError msg), w')"
proof -
  have "nat m = Suc (nat m - 1)" using assms(1) by simp
  then have "range_py m = 0 # map int [1..<nat m]"
    unfolding range_py_def by (simp add: upt_conv_Cons del: upt_Suc)
  then have c: "cover (range_py m) n ps g = (Inl (ValueError ''empty range in randrange''), g)"
    for ps g using assms(2) by (simp add: randint_empty)
  have n: "nat n = 0" using assms(2) by simp
  show ?thesis
    by (simp add: gen_instance_def Let_def clamp_pair randint_list_cases c n)
qed

lemma gen_instance_raising_ignores_b:
  "map_option (isl \<circ> fst) (gen_instance seed_state set_order m n ne b benefit_max dep_max seed w) =
   map_option (isl \<circ> fst) (gen_instance seed_state set_order m n ne b' benefit_max dep_max seed w)"
  by (simp add: gen_instance_def Let_def clamp_pair split: prod.splits sum.splits option.splits)

lemma gerador_raising_ignores_b:
  "isl (fst (gen_instance_gerador seed_state m n ne b benefit_max dep_max seed w)) =
   isl (fst (gen_instance_gerador seed_state m n ne b' benefit_max dep_max seed w))"
  by (simp add: gen_instance_gerador_def Let_def split: prod.splits sum.splits)

lemma gen_instance_frame:
  "gen_instance seed_state set_order m n ne b benefit_max dep_max seed w = Some (r, w') \<Longrightarrow>
   storage w' = storage w \<and> console w' = console w @ warnings m n ne"
  by (auto simp: gen_instance_def Let_def clamp_pair split: prod.splits sum.splits option.splits)

lemma gerador_frame:
  "storage (snd (gen_instance_gerador seed_state m n ne b benefit_max dep_max seed w)) = storage w \<and>
   console (snd (gen_instance_gerador seed_state m n ne b benefit_max dep_max seed w)) = console w"
  by (simp add: gen_instance_gerador_def Let_def split: prod.splits sum.splits)

text \<open>
  C4, as stated, fails: gerador_de_instancias.py has no check of \<open>ne\<close> against \<open>m\<close>. With
  \<open>m = 2\<close>, \<open>n = 1\<close> and \<open>ne = 1 < m\<close> it returns an instance of one pair.
\<close>

theorem C4_counterexample:
  "fst (gen_instance_gerador seed_state_example 2 1 1 100 600 400 (Some 0) world_example) =
     Inr (join [newline] [''2 1 1 100'', ''10 10'', ''5'', ''0 0''])"
  by code_simp

text \<open>
  C4, amended. For sizes \<open>m, n \<ge> 0\<close>, \<open>gen_instance\<close> of gerador_de_instancias.py raises
  \<open>ValueError\<close> for every \<open>ne > m * n\<close>, and for every \<open>ne \<le> m * n\<close> it raises nothing and
  returns an instance, provided the sampling ranges are not empty. There is no lower
  bound: when \<open>n \<ge> 1\<close>, every \<open>ne < m\<close> lies below \<open>m * n\<close> and is accepted. (When \<open>n = 0\<close>
  no pair exists, \<open>m * n = 0\<close>, and an \<open>ne \<ge> 1\<close> is rejected as too large, whether or not
  it is below \<open>m\<close>.)
\<close>

theorem C4_gerador_raises_only_above:
  assumes "0 \<le> m" "0 \<le> n"
  shows "(m * n < ne \<longrightarrow>
          (\<exists>msg w'. gen_instance_gerador seed_state m n ne b benefit_max dep_max seed w =
             (Inl (ValueError msg), w'))) \<and>
         (ne \<le> m * n \<longrightarrow> 10 \<le> benefit_max \<longrightarrow> 5 \<le> dep_max \<longrightarrow>
          (\<exists>out w'. gen_instance_gerador seed_state m n ne b benefit_max dep_max seed w =
             (Inr out, w'))) \<and>
         (1 \<le> n \<longrightarrow> ne < m \<longrightarrow> 10 \<le> benefit_max \<longrightarrow> 5 \<le> dep_max \<longrightarrow>
          (\<exists>out w'. gen_instance_gerador seed_state m n ne b benefit_max dep_max seed w =
             (Inr out, w'))) \<and>
         (n = 0 \<longrightarrow> 1 \<le> ne \<longrightarrow>
          (\<exists>msg w'. gen_instance_gerador seed_state m n ne b benefit_max dep_max seed w =
             (Inl (ValueError msg), w')))"
proof -
  have above: "\<exists>msg w'. gen_instance_gerador seed_state m n ne b benefit_max dep_max seed w =
             (Inl (ValueError msg), w')" if "m * n < ne"
  proof -
    have "int (nat m * nat n) < ne" using that nat_mult_sizes [OF assms] by simp
    then show ?thesis by (rule gerador_raises_above)
  qed
  have below: "\<exists>out w'. gen_instance_gerador seed_state m n ne b benefit_max dep_max seed w =
             (Inr out, w')"
    if "ne \<le> m * n" and bm: "10 \<le> benefit_max" and dm: "5 \<le> dep_max"
  proof -
    have le: "ne \<le> int (nat m * nat n)" using that(1) nat_mult_sizes [OF assms] by simp
    show ?thesis
      using gerador_run [OF bm dm le, of seed_state b seed w]
      by (elim exE conjE) (intro exI, assumption)
  qed
  have small: "\<exists>out w'. gen_instance_gerador seed_state m n ne b benefit_max dep_max seed w =
             (Inr out, w')"
    if n: "1 \<le> n" and ne: "ne < m" and bm: "10 \<le> benefit_max" and dm: "5 \<le> dep_max"
  proof -
    have "m * 1 \<le> m * n" using n assms(1) by (rule mult_left_mono)
    then have "ne \<le> m * n" using ne by simp
    then show ?thesis using bm dm by (rule below)
  qed
  have none: "\<exists>msg w'. gen_instance_gerador seed_state m n ne b benefit_max dep_max seed w =
             (Inl (ValueError msg), w')" if "n = 0" "1 \<le> ne"
  proof -
    have "m * n < ne" using that by simp
    then show ?thesis by (rule above)
  qed
  show ?thesis using above below small none by (intro conjI impI)
qed

theorem C4_gerador_raises_only_above_witness:
  "(\<exists>msg w'. gen_instance_gerador seed_state_example 2 1 3 100 600 400 (Some 0) world_example =
      (Inl (ValueError msg), w')) \<and>
   (\<exists>out w'. gen_instance_gerador seed_state_example 2 1 1 100 600 400 (Some 0) world_example =
      (Inr out, w')) \<and>
   (\<exists>msg w'. gen_instance_gerador seed_state_example 2 0 1 100 600 400 (Some 0) world_example =
      (Inl (ValueError msg), w'))"
  using C4_gerador_raises_only_above [of 2 1 3 seed_state_example 100 600 400 "Some 0" world_example]
    C4_gerador_raises_only_above [of 2 1 1 seed_state_example 100 600 400 "Some 0" world_example]
    C4_gerador_raises_only_above [of 2 0 1 seed_state_example 100 600 400 "Some 0" world_example]
  by simp

text \<open>
  C6, as stated, fails: neither script checks the sign of its arguments. With
  \<open>m = n = ne = 1\<close> and the capacity \<open>b = 0\<close> both return an instance.
\<close>

theorem C6_counterexample:
  "fst (gen_instance_gerador seed_state_example 1 1 1 0 600 400 (Some 0) world_example) =
     Inr (join [newline] [''1 1 1 0'', ''10'', ''5'', ''0 0'']) \<and>
   map_option fst (gen_instance seed_state_example id 1 1 1 0 600 400 (Some 0) world_example) =
     Some (Inr (join [newline] [''1 1 1 0'', ''10'', ''5'', ''0 0'']))"
  by code_simp

text \<open>
  C6, amended. Neither script validates the sign of \<open>m\<close>, \<open>n\<close>, \<open>ne\<close> or \<open>b\<close>; a
  \<open>ValueError\<close> arises only where a later step cannot work. instance_generator.py raises it
  when \<open>m \<ge> 1\<close> and \<open>n \<le> 0\<close> (no dependency index to draw); gerador_de_instancias.py raises it
  when \<open>m \<le> 0\<close> or \<open>n \<le> 0\<close> while \<open>ne \<ge> 1\<close> (more edges asked for than pairs exist). With
  sizes \<open>m, n \<ge> 1\<close> and non-empty sampling ranges, an \<open>ne \<le> 0\<close> makes neither script fail,
  and in no case does the value of \<open>b\<close> decide whether a call fails.
\<close>

theorem C6_sign_not_validated:
  "(1 \<le> m \<and> n \<le> 0 \<longrightarrow>
      (\<exists>msg w'. gen_instance seed_state set_order m n ne b benefit_max dep_max seed w =
         Some (Inl (ValueError msg), w'))) \<and>
   ((m \<le> 0 \<or> n \<le> 0) \<and> 1 \<le> ne \<longrightarrow>
      (\<exists>msg w'. gen_instance_gerador seed_state m n ne b benefit_max dep_max seed w =
         (Inl (ValueError msg), w'))) \<and>
   (1 \<le> m \<and> 1 \<le> n \<and> 10 \<le> benefit_max \<and> 5 \<le> dep_max \<and> ne \<le> 0 \<longrightarrow>
      (lists_each_once set_order \<longrightarrow>
         (\<exists>out w'. gen_instance seed_state set_order m n ne b benefit_max dep_max seed w =
            Some (Inr out, w'))) \<and>
      (\<exists>out w'. gen_instance_gerador seed_state m n ne b benefit_max dep_max seed w =
         (Inr out, w'))) \<and>
   map_option (isl \<circ> fst) (gen_instance seed_state set_order m n ne b benefit_max dep_max seed w) =
   map_option (isl \<circ> fst) (gen_instance seed_state set_order m n ne b' benefit_max dep_max seed w) \<and>
   isl (fst (gen_instance_gerador seed_state m n ne b benefit_max dep_max seed w)) =
   isl (fst (gen_instance_gerador seed_state m n ne b' benefit_max dep_max seed w))"
proof (intro conjI impI)
  assume "1 \<le> m \<and> n \<le> 0"
  then show "\<exists>msg w'. gen_instance seed_state set_order m n ne b benefit_max dep_max seed w =
         Some (Inl (ValueError msg), w')"
    by (intro gen_instance_no_dependencies) simp_all
next
  assume a: "(m \<le> 0 \<or> n \<le> 0) \<and> 1 \<le> ne"
  then have z: "nat m * nat n = 0" by auto
  have "int (nat m * nat n) < ne" unfolding z using a by simp
  then show "\<exists>msg w'. gen_instance_gerador seed_state m n ne b benefit_max dep_max seed w =
         (Inl (ValueError msg), w')"
    by (rule gerador_raises_above)
next
  assume a: "1 \<le> m \<and> 1 \<le> n \<and> 10 \<le> benefit_max \<and> 5 \<le> dep_max \<and> ne \<le> 0"
    and so: "lists_each_once set_order"
  from a have m: "1 \<le> m" and n: "1 \<le> n" and bm: "10 \<le> benefit_max" and dm: "5 \<le> dep_max"
    and ne: "ne \<le> m" by simp_all
  show "\<exists>out w'. gen_instance seed_state set_order m n ne b benefit_max dep_max seed w =
            Some (Inr out, w')"
    using gen_instance_minimal [OF m n bm dm so ne, of seed_state b seed w]
    by (elim exE conjE) (intro exI, assumption)
next
  assume a: "1 \<le> m \<and> 1 \<le> n \<and> 10 \<le> benefit_max \<and> 5 \<le> dep_max \<and> ne \<le> 0"
  then have bm: "10 \<le> benefit_max" and dm: "5 \<le> dep_max" by simp_all
  have "(0::int) \<le> int (nat m * nat n)" by (rule of_nat_0_le_iff)
  moreover from a have "ne \<le> 0" by simp
  ultimately have le: "ne \<le> int (nat m * nat n)" by (rule order_trans [rotated])
  show "\<exists>out w'. gen_instance_gerador seed_state m n ne b benefit_max dep_max seed w = (Inr out, w')"
    using gerador_run [OF bm dm le, of seed_state b seed w]
    by (elim exE conjE) (intro exI, assumption)
next
  show "map_option (isl \<circ> fst) (gen_instance seed_state set_order m n ne b benefit_max dep_max seed w) =
   map_option (isl \<circ> fst) (gen_instance seed_state set_order m n ne b' benefit_max dep_max seed w)"
    by (rule gen_instance_raising_ignores_b)
next
  show "isl (fst (gen_instance_gerador seed_state m n ne b benefit_max dep_max seed w)) =
   isl (fst (gen_instance_gerador seed_state m n ne b' benefit_max dep_max seed w))"
    by (rule gerador_raising_ignores_b)
qed

theorem C6_sign_not_validated_witness:
  "(\<exists>msg w'. gen_instance seed_state_example id 1 0 1 1 600 400 (Some 0) world_example =
      Some (Inl (ValueError msg), w')) \<and>
   (\<exists>msg w'. gen_instance_gerador seed_state_example 0 1 1 1 600 400 (Some 0) world_example =
      (Inl (ValueError msg), w')) \<and>
   (\<exists>out w'. gen_instance seed_state_example id 1 1 0 1 600 400 (Some 0) world_example =
      Some (Inr out, w')) \<and>
   (\<exists>out w'. gen_instance_gerador seed_state_example 1 1 0 1 600 400 (Some 0) world_example =
      (Inr out, w'))"
  using lists_each_once_id [where 'a = "int \<times> int"]
    C6_sign_not_validated [of 1 0 seed_state_example id 1 1 600 400 "Some 0" world_example 1]
    C6_sign_not_validated [of 0 1 seed_state_example id 1 1 600 400 "Some 0" world_example 1]
    C6_sign_not_validated [of 1 1 seed_state_example id 0 1 600 400 "Some 0" world_example 1]
  by simp

text \<open>
  C9, as stated, fails for instance_generator.py: when \<open>ne\<close> is out of range the call
  prints a notice. With \<open>m = n = 1\<close> and \<open>ne = 0\<close> the console, empty before, holds one
  line afterwards.
\<close>

theorem C9_counterexample:
  "map_option (console \<circ> snd)
     (gen_instance seed_state_example id 1 1 0 1 600 400 (Some 0) world_example) =
   Some [''[!] ne=0 is too small. Adjusted to 1 to ensure each package has a dependency.'']"
  by code_simp

text \<open>
  C9, amended. \<open>gen_instance\<close> of gerador_de_instancias.py changes neither the console nor
  the storage, whatever it is given and whether it returns or raises. \<open>gen_instance\<close> of
  instance_generator.py never changes the storage; to the console it adds nothing when
  \<open>m \<le> ne \<le> m * n\<close>, and exactly one line, the notice of the adjustment, when \<open>ne\<close> is
  out of that range. Beyond that, both only return their result and advance the random
  source.
\<close>

theorem C9_effects:
  "storage (snd (gen_instance_gerador seed_state m n ne b benefit_max dep_max seed w)) = storage w \<and>
   console (snd (gen_instance_gerador seed_state m n ne b benefit_max dep_max seed w)) = console w \<and>
   (\<forall>r w'. gen_instance seed_state set_order m n ne b benefit_max dep_max seed w = Some (r, w') \<longrightarrow>
      storage w' = storage w \<and> console w' = console w @ warnings m n ne) \<and>
   (m \<le> ne \<and> ne \<le> m * n \<longrightarrow> warnings m n ne = []) \<and>
   (ne < m \<or> m * n < ne \<longrightarrow> length (warnings m n ne) = 1)"
proof (intro conjI allI impI)
  show "storage (snd (gen_instance_gerador seed_state m n ne b benefit_max dep_max seed w)) = storage w"
    using gerador_frame by (rule conjunct1)
  show "console (snd (gen_instance_gerador seed_state m n ne b benefit_max dep_max seed w)) = console w"
    using gerador_frame by (rule conjunct2)
next
  fix r w'
  assume run: "gen_instance seed_state set_order m n ne b benefit_max dep_max seed w = Some (r, w')"
  show "storage w' = storage w" using gen_instance_frame [OF run] by (rule conjunct1)
  show "console w' = console w @ warnings m n ne" using gen_instance_frame [OF run] by (rule conjunct2)
next
  assume "m \<le> ne \<and> ne \<le> m * n"
  then show "warnings m n ne = []" by (simp add: warnings_def)
next
  assume "ne < m \<or> m * n < ne"
  then show "length (warnings m n ne) = 1" by (auto simp: warnings_def)
qed

theorem C9_effects_witness:
  "\<exists>r w'. gen_instance seed_state_example id 2 2 3 100 600 400 (Some 0) world_example = Some (r, w') \<and>
      storage w' = storage world_example \<and> console w' = console world_example"
proof -
  have sizes: "1 \<le> (2::int)" "10 \<le> (600::int)" "5 \<le> (400::int)" by simp_all
  obtain out w' where run:
    "gen_instance seed_state_example id 2 2 3 100 600 400 (Some 0) world_example = Some (Inr out, w')"
    using gen_instance_fair_run [OF sizes(1) sizes(1) sizes(2) sizes(3) lists_each_once_id
        tape_example_fair, of 3 100]
    by (elim exE conjE) (rule that)
  have "storage w' = storage world_example \<and> console w' = console world_example"
    using C9_effects [of seed_state_example 2 2 3 100 600 400 "Some 0" world_example id] run
    by simp
  with run show ?thesis by (intro exI [of _ "Inr out"] exI [of _ w']) simp
qed

lemma values_lines_out:
  "bs \<noteq> [] \<Longrightarrow> ds \<noteq> [] \<Longrightarrow>
   values_lines (join [newline] (out_lines m n ne b bs ds ps)) = (map str bs, map str ds)"
proof -
  assume bs: "bs \<noteq> []" and ds: "ds \<noteq> []"
  show ?thesis
    unfolding values_lines_def lines_split out_lines_nth values_split [OF bs] values_split [OF ds]
    by (rule refl)
qed

lemma header_ne_out: "header_ne (join [newline] (out_lines m n ne b bs ds ps)) = str ne"
  unfolding header_ne_def lines_split
  by (simp only: out_lines_nth header_split) simp

lemma pair_line_count_out:
  "pair_line_count (join [newline] (out_lines m n ne b bs ds ps)) = length ps"
  unfolding pair_line_count_def lines_split
  by (simp only: out_lines_nth length_map)

lemma drawn_nonempty:
  "1 \<le> m \<Longrightarrow> benefits_drawn seed_state m benefit_max seed w \<noteq> []"
  "1 \<le> n \<Longrightarrow> weights_drawn seed_state m n dep_max seed w \<noteq> []"
  by (simp_all add: benefits_drawn_def weights_drawn_def sampled_def)

lemma drawn_lengths:
  "1 \<le> m \<Longrightarrow> int (length (benefits_drawn seed_state m benefit_max seed w)) = m"
  "1 \<le> n \<Longrightarrow> int (length (weights_drawn seed_state m n dep_max seed w)) = n"
  by simp_all

lemma fst_pairs_distinct:
  assumes "int (length pairs) = m" "fst ` set pairs = {0..<m}"
  shows "distinct (map fst pairs)"
proof (rule card_distinct)
  have "card (set (map fst pairs)) = card {0..<m}" using assms(2) by simp
  also have "\<dots> = nat m" by simp
  also have "\<dots> = length (map fst pairs)" using assms(1) by simp
  finally show "card (set (map fst pairs)) = length (map fst pairs)" .
qed

lemma gerador_valid_run:
  assumes "0 \<le> m" "0 \<le> n" "0 \<le> ne" "ne \<le> m * n" "10 \<le> benefit_max" "5 \<le> dep_max"
  shows "\<exists>pairs w'.
     gen_instance_gerador seed_state m n ne b benefit_max dep_max seed w =
       (Inr (join [newline] (out_lines m n ne b
                    (benefits_drawn seed_state m benefit_max seed w)
                    (weights_drawn seed_state m n dep_max seed w) pairs)), w') \<and>
     int (length pairs) = ne"
proof -
  have le: "ne \<le> int (nat m * nat n)" using assms(4) nat_mult_sizes [OF assms(1,2)] by simp
  obtain shuffled w' where eq: "gen_instance_gerador seed_state m n ne b benefit_max dep_max seed w =
       (Inr (join [newline] (out_lines m n ne b
                    (benefits_drawn seed_state m benefit_max seed w)
                    (weights_drawn seed_state m n dep_max seed w) (slice_to ne shuffled))), w')"
    and l: "length shuffled = nat m * nat n"
    using gerador_run [OF assms(5,6) le, of seed_state b seed w]
    by (elim exE conjE) (rule that, assumption+)
  have "int (length (slice_to ne shuffled)) = ne"
    using assms(3) le l by (intro slice_to_length) simp_all
  with eq show ?thesis by (intro exI [of _ "slice_to ne shuffled"] exI [of _ w'] conjI)
qed



text \<open>
  C7. For sizes \<open>m, n \<ge> 1\<close>, an edge count \<open>m \<le> ne \<le> m * n\<close> and non-empty sampling ranges,
  the second line of the text holds exactly the \<open>m\<close> benefits in the order they were drawn,
  one per package index, each in \<open>[10, benefit_max]\<close>, and the third line exactly the \<open>n\<close>
  weights in the order they were drawn, each in \<open>[5, dep_max]\<close>. This holds for both
  generators (for instance_generator.py: on every tape fair for its loop the call returns,
  and any call that returns has these lines).
\<close>

theorem C7_benefits_and_weights:
  assumes "1 \<le> m" "1 \<le> n" "m \<le> ne" "ne \<le> m * n" "10 \<le> benefit_max" "5 \<le> dep_max"
  shows "int (length (benefits_drawn seed_state m benefit_max seed w)) = m \<and>
         set (benefits_drawn seed_state m benefit_max seed w) \<subseteq> {10..benefit_max} \<and>
         int (length (weights_drawn seed_state m n dep_max seed w)) = n \<and>
         set (weights_drawn seed_state m n dep_max seed w) \<subseteq> {5..dep_max} \<and>
         (\<exists>out w'.
            gen_instance_gerador seed_state m n ne b benefit_max dep_max seed w = (Inr out, w') \<and>
            values_lines out =
              (map str (benefits_drawn seed_state m benefit_max seed w),
               map str (weights_drawn seed_state m n dep_max seed w))) \<and>
         (lists_each_once set_order \<longrightarrow> fair_pairs m n (loop_tape seed_state m n seed w) \<longrightarrow>
          (\<exists>out w'.
            gen_instance seed_state set_order m n ne b benefit_max dep_max seed w =
              Some (Inr out, w') \<and>
            values_lines out =
              (map str (benefits_drawn seed_state m benefit_max seed w),
               map str (weights_drawn seed_state m n dep_max seed w)))) \<and>
         (\<forall>r. lists_each_once set_order \<longrightarrow>
            gen_instance seed_state set_order m n ne b benefit_max dep_max seed w = Some r \<longrightarrow>
          (\<exists>out w'. r = (Inr out, w') \<and>
            values_lines out =
              (map str (benefits_drawn seed_state m benefit_max seed w),
               map str (weights_drawn seed_state m n dep_max seed w))))"
proof -
  let ?B = "benefits_drawn seed_state m benefit_max seed w"
  let ?D = "weights_drawn seed_state m n dep_max seed w"
  have vl: "values_lines (join [newline] (out_lines m n k b ?B ?D pairs)) = (map str ?B, map str ?D)"
    for pairs k
    by (rule values_lines_out [OF drawn_nonempty(1) [OF assms(1)] drawn_nonempty(2) [OF assms(2)]])
  have a: "int (length ?B) = m" using assms(1) by (rule drawn_lengths)
  have b: "set ?B \<subseteq> {10..benefit_max}" using assms(5) by (rule benefits_drawn_bounds)
  have c: "int (length ?D) = n" using assms(2) by (rule drawn_lengths)
  have d: "set ?D \<subseteq> {5..dep_max}" using assms(6) by (rule weights_drawn_bounds)
  have 1: "\<exists>out w'.
            gen_instance_gerador seed_state m n ne b benefit_max dep_max seed w = (Inr out, w') \<and>
            values_lines out = (map str ?B, map str ?D)"
  proof -
    have "0 \<le> m" "0 \<le> n" "0 \<le> ne" using assms(1,2,3) by simp_all
    from gerador_valid_run [OF this assms(4,5,6), of seed_state b seed w]
    obtain pairs w' where "gen_instance_gerador seed_state m n ne b benefit_max dep_max seed w =
       (Inr (join [newline] (out_lines m n ne b ?B ?D pairs)), w')"
      by (elim exE conjE) (rule that)
    then show ?thesis using vl by (intro exI conjI)
  qed
  have 2: "\<exists>out w'.
            gen_instance seed_state set_order m n ne b benefit_max dep_max seed w =
              Some (Inr out, w') \<and>
            values_lines out = (map str ?B, map str ?D)"
    if so: "lists_each_once set_order" and fair: "fair_pairs m n (loop_tape seed_state m n seed w)"
  proof -
    from gen_instance_fair_run [OF assms(1,2,5,6) so fair, of ne b]
    obtain pairs w' where "gen_instance seed_state set_order m n ne b benefit_max dep_max seed w =
       Some (Inr (join [newline] (out_lines m n (clamp_ne m n ne) b ?B ?D pairs)), w')"
      by (elim exE conjE) (rule that)
    then show ?thesis using vl by (intro exI conjI)
  qed
  have 3: "\<exists>out w'. r = (Inr out, w') \<and> values_lines out = (map str ?B, map str ?D)"
    if so: "lists_each_once set_order"
      and run: "gen_instance seed_state set_order m n ne b benefit_max dep_max seed w = Some r" for r
  proof -
    from gen_instance_partial [OF assms(1,2,5,6) so run]
    obtain pairs w' where "r =
       (Inr (join [newline] (out_lines m n (clamp_ne m n ne) b ?B ?D pairs)), w')"
      by (elim exE conjE) (rule that)
    then show ?thesis using vl by (intro exI conjI)
  qed
  show ?thesis using a b c d 1 2 3 by (intro conjI allI impI)
qed

theorem C7_benefits_and_weights_witness:
  "int (length (benefits_drawn seed_state_example 2 600 (Some 0) world_example)) = 2 \<and>
   set (benefits_drawn seed_state_example 2 600 (Some 0) world_example) \<subseteq> {10..600} \<and>
   int (length (weights_drawn seed_state_example 2 2 400 (Some 0) world_example)) = 2 \<and>
   set (weights_drawn seed_state_example 2 2 400 (Some 0) world_example) \<subseteq> {5..400} \<and>
   (\<exists>out w'.
      gen_instance_gerador seed_state_example 2 2 3 100 600 400 (Some 0) world_example = (Inr out, w') \<and>
      values_lines out =
        (map str (benefits_drawn seed_state_example 2 600 (Some 0) world_example),
         map str (weights_drawn seed_state_example 2 2 400 (Some 0) world_example))) \<and>
   (\<exists>out w'.
      gen_instance seed_state_example id 2 2 3 100 600 400 (Some 0) world_example =
        Some (Inr out, w') \<and>
      values_lines out =
        (map str (benefits_drawn seed_state_example 2 600 (Some 0) world_example),
         map str (weights_drawn seed_state_example 2 2 400 (Some 0) world_example)))"
  using lists_each_once_id [where 'a = "int \<times> int"] tape_example_fair
    C7_benefits_and_weights [of 2 2 3 600 400 seed_state_example "Some 0" world_example 100 id]
  by simp

text \<open>
  C8. In instance_generator.py, for sizes \<open>m, n \<ge> 1\<close> and non-empty sampling ranges, a call
  with \<open>ne = m\<close> always returns, prints nothing, and emits exactly \<open>m\<close> pairs, one for each
  package index of \<open>[0, m)\<close>: they are the pairs that step 1 inserted and no others.
\<close>

theorem C8_minimal_edge_set:
  assumes "1 \<le> m" "1 \<le> n" "10 \<le> benefit_max" "5 \<le> dep_max" "lists_each_once set_order"
  shows "\<exists>pairs w'.
           gen_instance seed_state set_order m n m b benefit_max dep_max seed w =
             Some (Inr (join [newline] (out_lines m n m b
                     (benefits_drawn seed_state m benefit_max seed w)
                     (weights_drawn seed_state m n dep_max seed w) pairs)), w') \<and>
           int (length pairs) = m \<and> distinct (map fst pairs) \<and> set (map fst pairs) = {0..<m} \<and>
           set pairs = cover_set m n (cover_tape seed_state m n seed w) \<and>
           console w' = console w"
proof -
  have le: "m \<le> m" by simp
  obtain pairs w' where run: "gen_instance seed_state set_order m n m b benefit_max dep_max seed w =
             Some (Inr (join [newline] (out_lines m n m b
                     (benefits_drawn seed_state m benefit_max seed w)
                     (weights_drawn seed_state m n dep_max seed w) pairs)), w')"
    and l: "int (length pairs) = m"
    and s: "set pairs = cover_set m n (cover_tape seed_state m n seed w)"
    using gen_instance_minimal [OF assms le, of seed_state b seed w]
    by (elim exE conjE) (rule that)
  have f: "fst ` set pairs = {0..<m}" unfolding s by (rule cover_set_fst)
  have 1: "distinct (map fst pairs)" using l f by (rule fst_pairs_distinct)
  have 2: "set (map fst pairs) = {0..<m}" using f by simp
  have "m \<le> m * n" using assms(1,2) by (rule m_le_mn)
  then have "warnings m n m = []" by (intro warnings_valid) simp_all
  then have 3: "console w' = console w" using gen_instance_frame [OF run] by simp
  show ?thesis by (intro exI [of _ pairs] exI [of _ w'] conjI run l 1 2 s 3)
qed

theorem C8_minimal_edge_set_witness:
  "\<exists>pairs w'.
     gen_instance seed_state_example id 2 2 2 100 600 400 (Some 0) world_example =
       Some (Inr (join [newline] (out_lines 2 2 2 100
               (benefits_drawn seed_state_example 2 600 (Some 0) world_example)
               (weights_drawn seed_state_example 2 2 400 (Some 0) world_example) pairs)), w') \<and>
     int (length pairs) = 2 \<and> distinct (map fst pairs) \<and> set (map fst pairs) = {0..<2} \<and>
     set pairs = cover_set 2 2 (cover_tape seed_state_example 2 2 (Some 0) world_example) \<and>
     console w' = console world_example"
  using lists_each_once_id [where 'a = "int \<times> int"]
    C8_minimal_edge_set [of 2 2 600 400 id seed_state_example 100 "Some 0" world_example]
  by simp

text \<open>
  C10. The \<open>ne\<close> field of the header equals the number of pair lines after the third line.
  In instance_generator.py, for sizes \<open>m, n \<ge> 1\<close> and every integer \<open>ne\<close>, the header
  carries the clamped count, which lies in \<open>[m, m * n]\<close>, and that many pair lines follow
  (on every tape fair for the loop the call returns, and any returned text is so). In
  gerador_de_instancias.py, for sizes \<open>m, n \<ge> 0\<close> and every \<open>0 \<le> ne \<le> m * n\<close>, the header
  carries \<open>ne\<close> and \<open>ne\<close> pair lines follow. Sampling ranges are taken non-empty.
\<close>

theorem C10_header_counts_pair_lines:
  assumes "10 \<le> benefit_max" "5 \<le> dep_max"
  shows "(1 \<le> m \<longrightarrow> 1 \<le> n \<longrightarrow> lists_each_once set_order \<longrightarrow>
            m \<le> clamp_ne m n ne \<and> clamp_ne m n ne \<le> m * n \<and>
            (fair_pairs m n (loop_tape seed_state m n seed w) \<longrightarrow>
               (\<exists>out w'.
                  gen_instance seed_state set_order m n ne b benefit_max dep_max seed w =
                    Some (Inr out, w') \<and>
                  header_ne out = str (clamp_ne m n ne) \<and>
                  int (pair_line_count out) = clamp_ne m n ne)) \<and>
            (\<forall>r. gen_instance seed_state set_order m n ne b benefit_max dep_max seed w = Some r \<longrightarrow>
               (\<exists>out w'. r = (Inr out, w') \<and>
                  header_ne out = str (clamp_ne m n ne) \<and>
                  int (pair_line_count out) = clamp_ne m n ne))) \<and>
         (0 \<le> m \<longrightarrow> 0 \<le> n \<longrightarrow> 0 \<le> ne \<longrightarrow> ne \<le> m * n \<longrightarrow>
            (\<exists>out w'.
               gen_instance_gerador seed_state m n ne b benefit_max dep_max seed w = (Inr out, w') \<and>
               header_ne out = str ne \<and> int (pair_line_count out) = ne))"
proof -
  let ?B = "benefits_drawn seed_state m benefit_max seed w"
  let ?D = "weights_drawn seed_state m n dep_max seed w"
  have h1: "header_ne (join [newline] (out_lines m n k b ?B ?D pairs)) = str k" for pairs k
    by (rule header_ne_out)
  have h2: "int (pair_line_count (join [newline] (out_lines m n k b ?B ?D pairs))) = k"
    if "int (length pairs) = k" for pairs k
    using that by (simp add: pair_line_count_out)
  have 1: "m \<le> clamp_ne m n ne \<and> clamp_ne m n ne \<le> m * n" if "1 \<le> m" "1 \<le> n"
    using that by (rule clamp_ne_bounds)
  have 2: "\<exists>out w'.
                  gen_instance seed_state set_order m n ne b benefit_max dep_max seed w =
                    Some (Inr out, w') \<and>
                  header_ne out = str (clamp_ne m n ne) \<and>
                  int (pair_line_count out) = clamp_ne m n ne"
    if m: "1 \<le> m" and n: "1 \<le> n" and so: "lists_each_once set_order"
      and fair: "fair_pairs m n (loop_tape seed_state m n seed w)"
  proof -
    from gen_instance_fair_run [OF m n assms so fair, of ne b]
    obtain pairs w' where "gen_instance seed_state set_order m n ne b benefit_max dep_max seed w =
       Some (Inr (join [newline] (out_lines m n (clamp_ne m n ne) b ?B ?D pairs)), w')"
      and "int (length pairs) = clamp_ne m n ne"
      by (elim exE conjE) (rule that)
    then show ?thesis using h1 h2 by (intro exI conjI)
  qed
  have 3: "\<exists>out w'. r = (Inr out, w') \<and>
                  header_ne out = str (clamp_ne m n ne) \<and>
                  int (pair_line_count out) = clamp_ne m n ne"
    if m: "1 \<le> m" and n: "1 \<le> n" and so: "lists_each_once set_order"
      and run: "gen_instance seed_state set_order m n ne b benefit_max dep_max seed w = Some r" for r
  proof -
    from gen_instance_partial [OF m n assms so run]
    obtain pairs w' where "r =
       (Inr (join [newline] (out_lines m n (clamp_ne m n ne) b ?B ?D pairs)), w')"
      and "int (length pairs) = clamp_ne m n ne"
      by (elim exE conjE) (rule that)
    then show ?thesis using h1 h2 by (intro exI conjI)
  qed
  have 4: "\<exists>out w'.
               gen_instance_gerador seed_state m n ne b benefit_max dep_max seed w = (Inr out, w') \<and>
               header_ne out = str ne \<and> int (pair_line_count out) = ne"
    if "0 \<le> m" "0 \<le> n" "0 \<le> ne" "ne \<le> m * n"
  proof -
    from gerador_valid_run [OF that assms, of seed_state b seed w]
    obtain pairs w' where "gen_instance_gerador seed_state m n ne b benefit_max dep_max seed w =
       (Inr (join [newline] (out_lines m n ne b ?B ?D pairs)), w')" "int (length pairs) = ne"
      by (elim exE conjE) (rule that)
    then show ?thesis using h1 h2 by (intro exI conjI)
  qed
  show ?thesis using 1 2 3 4 by (intro conjI allI impI) simp_all
qed

theorem C10_header_counts_pair_lines_witness:
  "(\<exists>out w'.
      gen_instance seed_state_example id 2 2 7 100 600 400 (Some 0) world_example =
        Some (Inr out, w') \<and>
      header_ne out = str 4 \<and> int (pair_line_count out) = 4) \<and>
   (\<exists>out w'.
      gen_instance_gerador seed_state_example 2 2 3 100 600 400 (Some 0) world_example = (Inr out, w') \<and>
      header_ne out = str 3 \<and> int (pair_line_count out) = 3)"
  using lists_each_once_id [where 'a = "int \<times> int"] tape_example_fair
    C10_header_counts_pair_lines [of 600 400 2 2 id 7 seed_state_example "Some 0" world_example 100]
    C10_header_counts_pair_lines [of 600 400 2 2 id 3 seed_state_example "Some 0" world_example 100]
  by (simp add: clamp_ne_def)

end
